theory Spec2Isabelle
  imports Main
begin

section \<open>Durations (Go's time.Duration)\<close>

text \<open>
  A \<^verbatim>\<open>time.Duration\<close> is a signed 64-bit count of nanoseconds. It is modelled as an
  \<open>int\<close>, with the two's-complement wrap-around of Go's \<^verbatim>\<open>+\<close> and \<^verbatim>\<open>*\<close> written out.
\<close>

type_synonym Duration = int

definition wrap64 :: "int \<Rightarrow> int" where
  "wrap64 x = (x + 2 ^ 63) mod 2 ^ 64 - 2 ^ 63"

definition add64 :: "Duration \<Rightarrow> Duration \<Rightarrow> Duration" where
  "add64 a b = wrap64 (a + b)"

definition mul64 :: "Duration \<Rightarrow> Duration \<Rightarrow> Duration" where
  "mul64 a b = wrap64 (a * b)"

definition MaxInt64 :: int where
  "MaxInt64 = 2 ^ 63 - 1"

definition Second :: Duration where
  "Second = 1000000000"

definition Minute :: Duration where
  "Minute = 60 * Second"

definition Hour :: Duration where
  "Hour = 60 * Minute"

section \<open>The tag pattern (package hooks, durationPattern)\<close>

text \<open>
  \<^verbatim>\<open>^(?:(\d+)w)?(?:(\d+)d)?(?:(\d+)h)?(?:(\d+)m)?(?:(\d+)s)?$\<close>

  Go strings are byte sequences and \<^verbatim>\<open>\d\<close> is an ASCII digit, so a tag is a \<open>string\<close>
  and a digit is a byte between 48 and 57.
\<close>

definition isDigit :: "char \<Rightarrow> bool" where
  "isDigit c = (48 \<le> (of_char c :: int) \<and> (of_char c :: int) \<le> 57)"

text \<open>
  One optional group \<^verbatim>\<open>(?:(\d+)u)?\<close> matched at the head of \<open>s\<close>: the captured digits
  (the empty string when the group takes no part, as \<^verbatim>\<open>FindStringSubmatch\<close> reports it)
  and the rest of the input. \<^verbatim>\<open>\d+\<close> is greedy and the unit letter is no digit, so the
  only run of digits that can be followed by the unit is the longest one; and when the group
  can match it must, because no later group and no \<^verbatim>\<open>$\<close> matches a digit run followed by
  this unit.
\<close>

definition optGroup :: "char \<Rightarrow> string \<Rightarrow> string \<times> string" where
  "optGroup u s =
     (let ds = takeWhile isDigit s; rest = dropWhile isDigit s
      in case rest of
           [] \<Rightarrow> ([], s)
         | c # rest' \<Rightarrow> if ds \<noteq> [] \<and> c = u then (ds, rest') else ([], s))"

text \<open>
  \<^verbatim>\<open>durationPattern.FindStringSubmatch(tag)\<close>: \<open>None\<close> for Go's nil, otherwise the whole
  match followed by the five captures.
\<close>

definition FindStringSubmatch :: "string \<Rightarrow> string list option" where
  "FindStringSubmatch tag =
     (let (w, s1) = optGroup CHR ''w'' tag;
          (d, s2) = optGroup CHR ''d'' s1;
          (h, s3) = optGroup CHR ''h'' s2;
          (m, s4) = optGroup CHR ''m'' s3;
          (s, s5) = optGroup CHR ''s'' s4
      in if s5 = [] then Some [tag, w, d, h, m, s] else None)"

section \<open>strconv.Atoi on a captured group\<close>

text \<open>
  The captures are non-empty runs of ASCII digits. On those \<^verbatim>\<open>strconv.Atoi\<close> returns the
  decimal value, or, when the value does not fit an \<^verbatim>\<open>int\<close> (64 bits), the largest
  \<^verbatim>\<open>int\<close> together with a range error; \<^verbatim>\<open>ParseTTL\<close> discards the error
  (\<^verbatim>\<open>n, _ := strconv.Atoi(...)\<close>).
\<close>

definition digitsValue :: "string \<Rightarrow> int" where
  "digitsValue s = foldl (\<lambda>n c. 10 * n + (of_char c - 48)) 0 s"

definition Atoi :: "string \<Rightarrow> int" where
  "Atoi s = (if digitsValue s > MaxInt64 then MaxInt64 else digitsValue s)"

section \<open>ParseTTL and ClampTTL (package hooks)\<close>

definition ParseTTL :: "string \<Rightarrow> Duration" where
  "ParseTTL tag =
     (if tag = [] then - 1
      else case FindStringSubmatch tag of
        None \<Rightarrow> - 1
      | Some matches \<Rightarrow>
          if \<not> list_ex (\<lambda>m. m \<noteq> []) (tl matches) then - 1
          else
            let d0 = 0;
                d1 = (if matches ! 1 \<noteq> []
                      then add64 d0 (mul64 (mul64 (mul64 (Atoi (matches ! 1)) 7) 24) Hour)
                      else d0);
                d2 = (if matches ! 2 \<noteq> []
                      then add64 d1 (mul64 (mul64 (Atoi (matches ! 2)) 24) Hour)
                      else d1);
                d3 = (if matches ! 3 \<noteq> []
                      then add64 d2 (mul64 (Atoi (matches ! 3)) Hour)
                      else d2);
                d4 = (if matches ! 4 \<noteq> []
                      then add64 d3 (mul64 (Atoi (matches ! 4)) Minute)
                      else d3);
                d5 = (if matches ! 5 \<noteq> []
                      then add64 d4 (mul64 (Atoi (matches ! 5)) Second)
                      else d4)
            in d5)"

definition ClampTTL :: "Duration \<Rightarrow> Duration \<Rightarrow> Duration \<Rightarrow> Duration" where
  "ClampTTL d defaultTTL maxTTL =
     (if d \<le> 0 then defaultTTL
      else if d > maxTTL then maxTTL
      else d)"

section \<open>Errors\<close>

text \<open>
  A Go \<^verbatim>\<open>error\<close> value: \<open>Errorf msg\<close> is \<^verbatim>\<open>fmt.Errorf(msg, ...)\<close> with the format string
  \<open>msg\<close> (arguments other than a wrapped error are not rendered), and \<open>Wrapf msg err\<close> is
  \<^verbatim>\<open>fmt.Errorf(msg + ": %w", err)\<close>. A function that returns \<^verbatim>\<open>error\<close> returns an
  \<open>error option\<close> (\<open>None\<close> for nil); one that returns \<^verbatim>\<open>(T, error)\<close> returns \<open>error + T\<close>.
\<close>

datatype error = Errorf string | Wrapf string error

section \<open>Configuration (package config)\<close>

record Config =
  Port :: int
  InternalPort :: int
  RedisURL :: string
  HookToken :: string
  RegistryURL :: string
  Hostname :: string
  DefaultTTL :: Duration
  MaxTTL :: Duration
  ReapInterval :: Duration
  LogFormat :: string

definition Validate :: "Config \<Rightarrow> error option" where
  "Validate c =
     (if RedisURL c = [] then Some (Errorf ''REDIS_URL is required'')
      else if HookToken c = [] then Some (Errorf ''HOOK_TOKEN is required'')
      else if RegistryURL c = [] then Some (Errorf ''REGISTRY_URL is required'')
      else if DefaultTTL c \<le> 0 then Some (Errorf ''DEFAULT_TTL must be positive'')
      else if MaxTTL c \<le> 0 then Some (Errorf ''MAX_TTL must be positive'')
      else if DefaultTTL c > MaxTTL c
        then Some (Errorf ''DEFAULT_TTL (%s) must not exceed MAX_TTL (%s)'')
      else None)"

section \<open>Collaborators: the tracking store, the registry catalog and the clock\<close>

text \<open>
  An instant (\<^verbatim>\<open>time.Time\<close>) is a count of nanoseconds since the epoch. \<^verbatim>\<open>Time.Add\<close>
  saturates only where the sum leaves the range of \<^verbatim>\<open>time.Time\<close> (hundreds of billions of
  years); a wall-clock reading plus a \<^verbatim>\<open>Duration\<close> (at most 292 years) never does, so
  \<^verbatim>\<open>time.Now().Add(ttl)\<close> is the sum.
\<close>

type_synonym Time = int

text \<open>
  The calls a run makes on its collaborators, in the order it makes them. The store and the
  registry client are reached through interfaces and the network: their answers are
  parameters of the model, and what the program does to them is the sequence of calls.
\<close>

datatype call =
    ListRepositoriesCall
  | ListTagsCall string
  | TrackImageCall string Time
  | IsInitializedCall
  | SetInitializedCall

text \<open>
  \<^verbatim>\<open>time.Now()\<close>: the reading of the wall clock after the calls made so far. The handler
  and the runner read the clock once before each tracking write, so the readings of a run
  are taken after different call sequences, and any sequence of readings is such a function.
\<close>

type_synonym Clock = "call list \<Rightarrow> Time"

text \<open>
  The methods of \<^verbatim>\<open>redis.Store\<close> that the webhook handler and the recovery runner call,
  each given as the answer it returns.
\<close>

record Store =
  TrackImage :: "string \<Rightarrow> Time \<Rightarrow> error option"
  IsInitialized :: "error + bool"
  SetInitialized :: "error option"

text \<open>The two listing methods of \<^verbatim>\<open>registry.Client\<close>, pagination drained.\<close>

record Registry =
  ListRepositories :: "error + string list"
  ListTags :: "string \<Rightarrow> error + string list"

section \<open>The Redis client (package redis)\<close>

text \<open>
  What \<^verbatim>\<open>redis.Client\<close>, the implementation of \<^verbatim>\<open>Store\<close>, keeps of a tracking write.
  \<^verbatim>\<open>Time.UnixMilli\<close> is the instant in whole milliseconds since the epoch, rounded down.
\<close>

definition Millisecond :: Duration where
  "Millisecond = 1000000"

definition UnixMilli :: "Time \<Rightarrow> int" where
  "UnixMilli t = t div 1000000"

text \<open>\<^verbatim>\<open>strconv.FormatInt(i, 10)\<close>: the decimal digits, most significant first, after the sign.\<close>

definition digitChar :: "int \<Rightarrow> char" where
  "digitChar k = ''0123456789'' ! nat k"

function formatUint :: "int \<Rightarrow> string" where
  "formatUint n = (if n < 10 then [digitChar n] else formatUint (n div 10) @ [digitChar (n mod 10)])"
  by pat_completeness auto
termination
  by (relation "measure nat") auto

declare formatUint.simps [simp del]

definition FormatInt :: "int \<Rightarrow> string" where
  "FormatInt i = (if i < 0 then CHR ''-'' # formatUint (- i) else formatUint i)"

text \<open>
  \<^verbatim>\<open>strconv.ParseInt(s, 10, 64)\<close>: an optional sign and at least one decimal digit, the
  value within the signed 64-bit range. The two failures are Go's \<^verbatim>\<open>ErrSyntax\<close> and
  \<^verbatim>\<open>ErrRange\<close>, named here by their messages.
\<close>

definition ParseInt :: "string \<Rightarrow> error + int" where
  "ParseInt s =
     (let (neg, ds) = (case s of
                         [] \<Rightarrow> (False, [])
                       | c # rest \<Rightarrow> if c = CHR ''+'' then (False, rest)
                                    else if c = CHR ''-'' then (True, rest)
                                    else (False, s))
      in if ds = [] \<or> \<not> list_all isDigit ds then Inl (Errorf ''invalid syntax'')
         else let n = (if neg then - digitsValue ds else digitsValue ds)
              in if n < - (2 ^ 63) \<or> MaxInt64 < n then Inl (Errorf ''value out of range'')
                 else Inr n)"

text \<open>
  The part of the Redis keyspace that tracking uses: the set \<^verbatim>\<open>current.images\<close> and one
  hash of string fields per image reference.
\<close>

record Redis =
  images :: "string set"
  hashes :: "string \<Rightarrow> (string \<rightharpoonup> string)"

text \<open>
  How \<^verbatim>\<open>pipe.Exec\<close> ended: every queued command executed, or an error, with which of the
  two queued commands (\<^verbatim>\<open>SADD\<close>, then \<^verbatim>\<open>HSET\<close>) took effect all the same.
\<close>

datatype pipe = Executed | Broken error bool bool

text \<open>
  \<^verbatim>\<open>Client.TrackImage\<close>: one pipeline that adds the reference to \<^verbatim>\<open>current.images\<close> and sets
  two fields of its hash, \<^verbatim>\<open>created\<close> from a clock reading of its own (\<open>created\<close>, taken
  after the caller computed the expiry) and \<^verbatim>\<open>expires\<close> from the instant it was given,
  both as decimal milliseconds. It returns the error of \<^verbatim>\<open>Exec\<close>.
\<close>

definition Client_TrackImage ::
  "pipe \<Rightarrow> Time \<Rightarrow> string \<Rightarrow> Time \<Rightarrow> Redis \<Rightarrow> error option \<times> Redis" where
  "Client_TrackImage exec created imageWithTag expiry rdb =
     (let sadd = (\<lambda>r. r\<lparr>images := insert imageWithTag (images r)\<rparr>);
          hset = (\<lambda>r. r\<lparr>hashes := (hashes r)
                     (imageWithTag := (hashes r imageWithTag)
                        (''created'' \<mapsto> FormatInt (UnixMilli created),
                         ''expires'' \<mapsto> FormatInt (UnixMilli expiry)))\<rparr>)
      in case exec of
           Executed \<Rightarrow> (None, hset (sadd rdb))
         | Broken err a b \<Rightarrow>
             (Some err, (if b then hset else id) ((if a then sadd else id) rdb)))"

text \<open>
  \<^verbatim>\<open>Client.GetExpiry\<close>: \<^verbatim>\<open>HGET\<close> of the field \<^verbatim>\<open>expires\<close>, an error when the command fails
  (\<open>fault\<close>) or the field is absent (\<^verbatim>\<open>redis.Nil\<close>), then \<^verbatim>\<open>strconv.ParseInt\<close>.
\<close>

definition Client_GetExpiry :: "error option \<Rightarrow> Redis \<Rightarrow> string \<Rightarrow> error + int" where
  "Client_GetExpiry fault rdb imageWithTag =
     (case fault of
        Some err \<Rightarrow> Inl err
      | None \<Rightarrow>
          (case hashes rdb imageWithTag ''expires'' of
             None \<Rightarrow> Inl (Errorf ''redis: nil'')
           | Some val \<Rightarrow> ParseInt val))"

section \<open>The webhook handler (package hooks)\<close>

record EventTarget =
  Repository :: string
  Tag :: string

record RegistryEvent =
  Action :: string
  Target :: EventTarget

record EventEnvelope =
  Events :: "RegistryEvent list"

record Handler =
  redis :: Store
  hookToken :: string
  defaultTTL :: Duration
  maxTTL :: Duration

text \<open>
  What \<^verbatim>\<open>ServeHTTP\<close> reads of a request: the method, the \<^verbatim>\<open>Authorization\<close> header
  (\<^verbatim>\<open>Header.Get\<close> gives the empty string when it is absent) and what
  \<^verbatim>\<open>json.NewDecoder(r.Body).Decode(&envelope)\<close> makes of the body.
\<close>

record Request =
  Method :: string
  Authorization :: string
  Body :: "error + EventEnvelope"

definition StatusOK :: nat where "StatusOK = 200"
definition StatusBadRequest :: nat where "StatusBadRequest = 400"
definition StatusUnauthorized :: nat where "StatusUnauthorized = 401"
definition StatusMethodNotAllowed :: nat where "StatusMethodNotAllowed = 405"

definition handlePush ::
  "Clock \<Rightarrow> Handler \<Rightarrow> string \<Rightarrow> string \<Rightarrow> call list \<Rightarrow> error option \<times> call list" where
  "handlePush now h repo tag t =
     (let imageWithTag = repo @ '':'' @ tag;
          ttl = ClampTTL (ParseTTL tag) (Handler.defaultTTL h) (Handler.maxTTL h);
          expiresAt = now t + ttl
      in (TrackImage (Handler.redis h) imageWithTag expiresAt,
          t @ [TrackImageCall imageWithTag expiresAt]))"

text \<open>
  The loop over \<^verbatim>\<open>envelope.Events\<close>. An error of \<^verbatim>\<open>handlePush\<close> is logged and the loop
  goes on.
\<close>

fun handleEvents :: "Clock \<Rightarrow> Handler \<Rightarrow> RegistryEvent list \<Rightarrow> call list \<Rightarrow> call list" where
  "handleEvents now h [] t = t"
| "handleEvents now h (event # events) t =
     (if Action event \<noteq> ''push'' then handleEvents now h events t
      else if Repository (Target event) = [] \<or> Tag (Target event) = []
        then handleEvents now h events t
      else handleEvents now h events
             (snd (handlePush now h (Repository (Target event)) (Tag (Target event)) t)))"

text \<open>The status code \<^verbatim>\<open>ServeHTTP\<close> answers with (the body is left out) and the calls made.\<close>

definition ServeHTTP :: "Clock \<Rightarrow> Handler \<Rightarrow> Request \<Rightarrow> call list \<Rightarrow> nat \<times> call list" where
  "ServeHTTP now h r t =
     (if Method r \<noteq> ''POST'' then (StatusMethodNotAllowed, t)
      else if Authorization r \<noteq> ''Token '' @ hookToken h then (StatusUnauthorized, t)
      else case Body r of
        Inl err \<Rightarrow> (StatusBadRequest, t)
      | Inr envelope \<Rightarrow> (StatusOK, handleEvents now h (Events envelope) t))"

section \<open>The recovery runner (package recover)\<close>

record Runner =
  redis :: Store
  registry :: Registry
  defaultTTL :: Duration
  maxTTL :: Duration

text \<open>
  The inner loop of \<^verbatim>\<open>Run\<close> over the tags of one repository, on the pair of the counter
  \<^verbatim>\<open>recovered\<close> and the calls made so far.
\<close>

fun trackTags ::
  "Clock \<Rightarrow> Runner \<Rightarrow> string \<Rightarrow> string list \<Rightarrow> nat \<times> call list \<Rightarrow> nat \<times> call list" where
  "trackTags now r repo [] (recovered, t) = (recovered, t)"
| "trackTags now r repo (tag # tags) (recovered, t) =
     (let ttl = ClampTTL (ParseTTL tag) (Runner.defaultTTL r) (Runner.maxTTL r);
          expiresAt = now t + ttl;
          imageWithTag = repo @ '':'' @ tag;
          t' = t @ [TrackImageCall imageWithTag expiresAt]
      in case TrackImage (Runner.redis r) imageWithTag expiresAt of
           Some err \<Rightarrow> trackTags now r repo tags (recovered, t')
         | None \<Rightarrow> trackTags now r repo tags (recovered + 1, t'))"

text \<open>The outer loop over the repositories.\<close>

fun scanRepos ::
  "Clock \<Rightarrow> Runner \<Rightarrow> string list \<Rightarrow> nat \<times> call list \<Rightarrow> nat \<times> call list" where
  "scanRepos now r [] (recovered, t) = (recovered, t)"
| "scanRepos now r (repo # repos) (recovered, t) =
     (case ListTags (registry r) repo of
        Inl err \<Rightarrow> scanRepos now r repos (recovered, t @ [ListTagsCall repo])
      | Inr tags \<Rightarrow>
          scanRepos now r repos (trackTags now r repo tags (recovered, t @ [ListTagsCall repo])))"

text \<open>
  \<^verbatim>\<open>Run\<close>: the error it returns, the number of images it logs as recovered, and the calls
  made.
\<close>

definition Run :: "Clock \<Rightarrow> Runner \<Rightarrow> call list \<Rightarrow> error option \<times> nat \<times> call list" where
  "Run now r t =
     (case ListRepositories (registry r) of
        Inl err \<Rightarrow> (Some (Wrapf ''listing repositories'' err), 0, t @ [ListRepositoriesCall])
      | Inr repos \<Rightarrow>
          (let (recovered, t') = scanRepos now r repos (0, t @ [ListRepositoriesCall])
           in (None, recovered, t')))"

definition RunIfNeeded :: "Clock \<Rightarrow> Runner \<Rightarrow> call list \<Rightarrow> error option \<times> call list" where
  "RunIfNeeded now r t =
     (case IsInitialized (Runner.redis r) of
        Inl err \<Rightarrow> (Some (Wrapf ''checking initialization state'' err), t @ [IsInitializedCall])
      | Inr initialized \<Rightarrow>
          if initialized then (None, t @ [IsInitializedCall])
          else
            (case Run now r (t @ [IsInitializedCall]) of
               (Some err, recovered, t') \<Rightarrow> (Some err, t')
             | (None, recovered, t') \<Rightarrow>
                 (case SetInitialized (Runner.redis r) of
                    Some err \<Rightarrow> (Some (Wrapf ''setting initialized flag'' err),
                                 t' @ [SetInitializedCall])
                  | None \<Rightarrow> (None, t' @ [SetInitializedCall]))))"

section \<open>The reap cycle (package reaper)\<close>

text \<open>
  The reaper's own file (\<^verbatim>\<open>ReapOnce\<close> and \<^verbatim>\<open>deleteImage\<close>) is not among the sources: only
  its tests and its caller are. The definitions of this section are therefore written from
  the specification: the data model of its section 3, the tracking store's capabilities of
  section 4.2, the cycle of section 4.3 and the deletion collaborator of section 6.
\<close>

text \<open>Modelled from the spec: the tracking record of the missing store layout (section 3).\<close>

record TrackingRecord =
  createdAt :: Time
  expiresAt :: Time
  sizeBytes :: int

text \<open>
  Modelled from the spec: the coordination store as the missing reaper sees it (section 3):
  the tracking set, in the order \<^verbatim>\<open>listTracked\<close> reports it, the record of each reference,
  and whether a live lease of the reap lock exists.
\<close>

record TrackingStore =
  tracked :: "string list"
  records :: "string \<rightharpoonup> TrackingRecord"
  lockHeld :: bool

text \<open>
  Modelled from the spec: \<^verbatim>\<open>getExpiry(ref)\<close> for the missing reaper, absent when the
  reference has no record.
\<close>

definition getExpiry :: "TrackingStore \<Rightarrow> string \<Rightarrow> Time option" where
  "getExpiry s ref = map_option expiresAt (records s ref)"

text \<open>Modelled from the spec: \<^verbatim>\<open>getSize(ref)\<close> for the missing reaper, defaulting to 0.\<close>

definition getSize :: "TrackingStore \<Rightarrow> string \<Rightarrow> int" where
  "getSize s ref = (case records s ref of None \<Rightarrow> 0 | Some rec \<Rightarrow> sizeBytes rec)"

text \<open>
  Modelled from the spec: \<^verbatim>\<open>removeArtifact(ref)\<close> for the missing reaper: set membership
  and metadata go together, and an absent reference is no error.
\<close>

definition removeArtifact :: "string \<Rightarrow> TrackingStore \<Rightarrow> TrackingStore" where
  "removeArtifact ref s =
     s\<lparr>tracked := removeAll ref (tracked s), records := (records s)(ref := None)\<rparr>"

text \<open>
  Modelled from the spec: \<^verbatim>\<open>acquireLock(leaseDuration)\<close> for the missing reaper: sets the
  lock only if absent and tells whether this caller now holds it.
\<close>

definition acquireLock :: "TrackingStore \<Rightarrow> bool \<times> TrackingStore" where
  "acquireLock s = (if lockHeld s then (False, s) else (True, s\<lparr>lockHeld := True\<rparr>))"

text \<open>Modelled from the spec: \<^verbatim>\<open>releaseLock()\<close> for the missing reaper, unconditional.\<close>

definition releaseLock :: "TrackingStore \<Rightarrow> TrackingStore" where
  "releaseLock s = s\<lparr>lockHeld := False\<rparr>"

text \<open>
  Modelled from the spec: what the artifact store answers to the missing reaper: a result,
  "not found" (HTTP 404: the artifact is already gone), or any other failure.
\<close>

datatype 'a answer = Answered 'a | NotFound | Failed error

text \<open>
  Modelled from the spec: the collaborators of the missing reaper (sections 4.3 and 6):
  whether \<^verbatim>\<open>listTracked\<close> fails, and the artifact store's two operations, resolving
  repository and tag to a content address and deleting by that address.
\<close>

record ReapEnv =
  listFailure :: "error option"
  resolveAddress :: "string \<Rightarrow> string \<Rightarrow> string answer"
  requestDeletion :: "string \<Rightarrow> string \<Rightarrow> unit answer"

text \<open>Modelled from the spec: \<^verbatim>\<open>listTracked()\<close> for the missing reaper.\<close>

definition listTracked :: "ReapEnv \<Rightarrow> TrackingStore \<Rightarrow> error + string list" where
  "listTracked env s = (case listFailure env of Some err \<Rightarrow> Inl err | None \<Rightarrow> Inr (tracked s))"

text \<open>Modelled from the spec: the requests the missing reaper sends to the artifact store.\<close>

datatype request = Resolve string string | Delete string string

text \<open>
  Modelled from the spec: the reference check of the missing \<^verbatim>\<open>deleteImage\<close> (section 4.3):
  a reference must split at \<^verbatim>\<open>:\<close> into exactly a repository part and a tag part.
\<close>

definition splitRef :: "string \<Rightarrow> (string \<times> string) option" where
  "splitRef ref =
     (if length (filter (\<lambda>c. c = CHR '':'') ref) = 1
      then Some (takeWhile (\<lambda>c. c \<noteq> CHR '':'') ref, tl (dropWhile (\<lambda>c. c \<noteq> CHR '':'') ref))
      else None)"

text \<open>
  Modelled from the spec: the missing \<^verbatim>\<open>deleteImage\<close> (sections 4.3 and 6): validate the
  reference before any network call, resolve the content address, request deletion by that
  address, and on an accepted outcome (deleted, or already absent upstream) remove the
  tracking record. It returns its error, the store and the requests it sent.
\<close>

definition deleteImage ::
  "ReapEnv \<Rightarrow> string \<Rightarrow> TrackingStore \<Rightarrow> error option \<times> TrackingStore \<times> request list" where
  "deleteImage env ref s =
     (case splitRef ref of
        None \<Rightarrow> (Some (Errorf ''invalid image format''), s, [])
      | Some (repo, tag) \<Rightarrow>
          (case resolveAddress env repo tag of
             NotFound \<Rightarrow> (None, removeArtifact ref s, [Resolve repo tag])
           | Failed err \<Rightarrow> (Some err, s, [Resolve repo tag])
           | Answered address \<Rightarrow>
               (case requestDeletion env repo address of
                  Failed err \<Rightarrow> (Some err, s, [Resolve repo tag, Delete repo address])
                | NotFound \<Rightarrow>
                    (None, removeArtifact ref s, [Resolve repo tag, Delete repo address])
                | Answered u \<Rightarrow>
                    (None, removeArtifact ref s, [Resolve repo tag, Delete repo address]))))"

text \<open>
  Modelled from the spec: what the missing cycle does for one reference, in order: the
  deletion collaborator is invoked for it, requests go to the artifact store on its behalf,
  and the outcome is accepted (with the bytes reclaimed) or failed (logged).
\<close>

datatype event =
    Attempt string
  | Sent string request
  | Reclaimed string int
  | Gave_up string error

text \<open>Modelled from the spec: the reference an event of the missing cycle is about.\<close>

fun eventRef :: "event \<Rightarrow> string" where
  "eventRef (Attempt ref) = ref"
| "eventRef (Sent ref q) = ref"
| "eventRef (Reclaimed ref n) = ref"
| "eventRef (Gave_up ref err) = ref"

text \<open>
  Modelled from the spec: the Evaluating state of the missing \<^verbatim>\<open>ReapOnce\<close> (section 4.3),
  one reference at a time under a fixed clock: skip a reference without a readable expiry or
  with \<^verbatim>\<open>now < expiresAt\<close>; otherwise read the size, invoke the deletion, and go on to the
  next reference whatever the outcome.
\<close>

fun evaluate ::
  "ReapEnv \<Rightarrow> Time \<Rightarrow> string list \<Rightarrow> TrackingStore \<Rightarrow> TrackingStore \<times> event list" where
  "evaluate env now [] s = (s, [])"
| "evaluate env now (ref # refs) s =
     (case getExpiry s ref of
        None \<Rightarrow> evaluate env now refs s
      | Some expires \<Rightarrow>
          if now < expires then evaluate env now refs s
          else
            (let size = getSize s ref;
                 (err, s', sent) = deleteImage env ref s;
                 outcome = (case err of None \<Rightarrow> Reclaimed ref size | Some e \<Rightarrow> Gave_up ref e);
                 (s'', rest) = evaluate env now refs s'
             in (s'', Attempt ref # map (Sent ref) sent @ outcome # rest)))"

text \<open>
  Modelled from the spec: the missing \<^verbatim>\<open>ReapOnce\<close> (section 4.3): LockAttempt, then Skipped
  (no work, no error) or Scanning (a listing failure aborts the cycle with an error, the lock
  still released), Evaluating and Done (the lock released). It returns the cycle-level
  error, the store and the events of the cycle.
\<close>

definition ReapOnce ::
  "ReapEnv \<Rightarrow> Time \<Rightarrow> TrackingStore \<Rightarrow> error option \<times> TrackingStore \<times> event list" where
  "ReapOnce env now s =
     (case acquireLock s of
        (False, s1) \<Rightarrow> (None, s1, [])
      | (True, s1) \<Rightarrow>
          (case listTracked env s1 of
             Inl err \<Rightarrow> (Some err, releaseLock s1, [])
           | Inr refs \<Rightarrow>
               (let (s2, events) = evaluate env now refs s1
                in (None, releaseLock s2, events))))"

text \<open>
  Modelled from the spec: the test the missing cycle applies to a reference (section 4.3):
  expired when its record's expiry is at or before the clock.
\<close>

definition expired :: "TrackingStore \<Rightarrow> Time \<Rightarrow> string \<Rightarrow> bool" where
  "expired s now ref = (case getExpiry s ref of None \<Rightarrow> False | Some expires \<Rightarrow> \<not> now < expires)"

section \<open>Observations on results and call sequences\<close>

text \<open>
  One component of a tag as the pattern's grammar writes it: a captured run of digits followed
  by its unit letter, or nothing when the group takes no part.
\<close>

definition component :: "string \<Rightarrow> char \<Rightarrow> string" where
  "component g u = (if g = [] then [] else g @ [u])"

text \<open>
  The exact sum the components of a matched tag denote, in nanoseconds and without any
  64-bit limit (an absent group counts 0).
\<close>

definition exactTTL :: "string list \<Rightarrow> int" where
  "exactTTL matches =
     digitsValue (matches ! 1) * (7 * 24 * Hour) + digitsValue (matches ! 2) * (24 * Hour)
     + digitsValue (matches ! 3) * Hour + digitsValue (matches ! 4) * Minute
     + digitsValue (matches ! 5) * Second"

text \<open>The calls a run added to the sequence \<open>t\<close> it started from.\<close>

definition newCalls :: "call list \<Rightarrow> call list \<Rightarrow> call list" where
  "newCalls t t' = drop (length t) t'"

text \<open>The references \<^verbatim>\<open>TrackImage\<close> was called with, in order.\<close>

fun trackedRefs :: "call list \<Rightarrow> string list" where
  "trackedRefs [] = []"
| "trackedRefs (TrackImageCall ref e # cs) = ref # trackedRefs cs"
| "trackedRefs (c # cs) = trackedRefs cs"

text \<open>The repositories \<^verbatim>\<open>ListTags\<close> was called with, in order.\<close>

fun listedRepos :: "call list \<Rightarrow> string list" where
  "listedRepos [] = []"
| "listedRepos (ListTagsCall repo # cs) = repo # listedRepos cs"
| "listedRepos (c # cs) = listedRepos cs"

text \<open>A call is a tracking write that the store accepted.\<close>

fun stored :: "Store \<Rightarrow> call \<Rightarrow> bool" where
  "stored s (TrackImageCall ref e) = (TrackImage s ref e = None)"
| "stored s c = False"

text \<open>Every image of the catalog: each tag of each repository whose tags can be listed.\<close>

definition imagesOf :: "Registry \<Rightarrow> string list \<Rightarrow> string list" where
  "imagesOf reg repos =
     concat (map (\<lambda>repo. case ListTags reg repo of
                            Inl err \<Rightarrow> []
                          | Inr tags \<Rightarrow> map (\<lambda>tag. repo @ '':'' @ tag) tags) repos)"

text \<open>
  Every tracking write among the calls \<open>cs\<close>, made after the calls \<open>t\<close>, hands the store an
  expiry instant strictly later, in nanoseconds, than the reading of the clock that the
  caller took to compute it.
\<close>

fun writesAhead :: "Clock \<Rightarrow> call list \<Rightarrow> call list \<Rightarrow> bool" where
  "writesAhead now t [] = True"
| "writesAhead now t (c # cs) =
     ((case c of TrackImageCall ref e \<Rightarrow> now t < e | _ \<Rightarrow> True) \<and> writesAhead now (t @ [c]) cs)"

text \<open>
  The same at the resolution the Redis client stores: every tracking write among the calls
  \<open>cs\<close> carries an expiry whose millisecond is not before the millisecond of the clock's
  reading at that moment.
\<close>

fun writesStored :: "Clock \<Rightarrow> call list \<Rightarrow> call list \<Rightarrow> bool" where
  "writesStored now t [] = True"
| "writesStored now t (c # cs) =
     ((case c of TrackImageCall ref e \<Rightarrow> UnixMilli (now t) \<le> UnixMilli e | _ \<Rightarrow> True)
      \<and> writesStored now (t @ [c]) cs)"

section \<open>Example inputs\<close>

text \<open>A clock that advances by a nanosecond with every call.\<close>

definition exampleClock :: Clock where
  "exampleClock t = 1700000000000000000 + int (length t)"

text \<open>A store that is unreachable: every operation fails.\<close>

definition downStore :: Store where
  "downStore =
     \<lparr>TrackImage = (\<lambda>ref e. Some (Errorf ''connection refused'')),
      IsInitialized = Inl (Errorf ''connection refused''),
      SetInitialized = Some (Errorf ''connection refused'')\<rparr>"

text \<open>An uninitialized store that accepts every write but the one for \<^verbatim>\<open>c:latest\<close>.\<close>

definition freshStore :: Store where
  "freshStore =
     \<lparr>TrackImage = (\<lambda>ref e. if ref = ''c:latest'' then Some (Errorf ''timeout'') else None),
      IsInitialized = Inr False,
      SetInitialized = None\<rparr>"

text \<open>An initialized store.\<close>

definition readyStore :: Store where
  "readyStore =
     \<lparr>TrackImage = (\<lambda>ref e. None), IsInitialized = Inr True, SetInitialized = None\<rparr>"

text \<open>A catalog of three repositories; the tags of \<^verbatim>\<open>b\<close> cannot be listed.\<close>

definition exampleRegistry :: Registry where
  "exampleRegistry =
     \<lparr>ListRepositories = Inr [''a'', ''b'', ''c''],
      ListTags = (\<lambda>repo. if repo = ''a'' then Inr [''1h'']
                          else if repo = ''b'' then Inl (Errorf ''decoding tags response'')
                          else Inr [''latest'', ''5m''])\<rparr>"

text \<open>A registry whose catalog cannot be listed.\<close>

definition downRegistry :: Registry where
  "downRegistry =
     \<lparr>ListRepositories = Inl (Errorf ''listing catalog''),
      ListTags = (\<lambda>repo. Inr [''1h''])\<rparr>"

definition exampleRunner :: "Store \<Rightarrow> Registry \<Rightarrow> Runner" where
  "exampleRunner s reg =
     \<lparr>Runner.redis = s, registry = reg,
      Runner.defaultTTL = Hour, Runner.maxTTL = 24 * Hour\<rparr>"

definition exampleHandler :: "Store \<Rightarrow> Handler" where
  "exampleHandler s =
     \<lparr>Handler.redis = s, hookToken = ''tok'',
      Handler.defaultTTL = Hour, Handler.maxTTL = 24 * Hour\<rparr>"

text \<open>An authorized push notification for \<^verbatim>\<open>myapp:1h\<close>.\<close>

definition pushRequest :: Request where
  "pushRequest =
     \<lparr>Method = ''POST'', Authorization = ''Token tok'',
      Body = Inr \<lparr>Events = [\<lparr>Action = ''push'',
                              Target = \<lparr>Repository = ''myapp'', Tag = ''1h''\<rparr>\<rparr>]\<rparr>\<rparr>"

definition exampleConfig :: Config where
  "exampleConfig =
     \<lparr>Port = 8000, InternalPort = 9090, RedisURL = ''redis://localhost:6379'',
      HookToken = ''tok'', RegistryURL = ''http://localhost:5000'', Hostname = ''localhost'',
      DefaultTTL = Hour, MaxTTL = 24 * Hour, ReapInterval = Minute, LogFormat = ''json''\<rparr>"


text \<open>An artifact store that answers "not found" to every request.\<close>

definition goneEnv :: ReapEnv where
  "goneEnv =
     \<lparr>listFailure = None,
      resolveAddress = (\<lambda>repo tag. NotFound),
      requestDeletion = (\<lambda>repo address. NotFound)\<rparr>"

text \<open>An empty Redis keyspace.\<close>

definition emptyRedis :: Redis where
  "emptyRedis = \<lparr>images = {}, hashes = (\<lambda>key. Map.empty)\<rparr>"

text \<open>
  A configuration whose two limits are one nanosecond, the smallest \<^verbatim>\<open>Validate\<close> accepts,
  and the handler \<^verbatim>\<open>serve\<close> builds from it.
\<close>

definition tinyConfig :: Config where
  "tinyConfig = exampleConfig\<lparr>DefaultTTL := 1, MaxTTL := 1\<rparr>"

definition tinyHandler :: Handler where
  "tinyHandler =
     \<lparr>Handler.redis = readyStore, hookToken = HookToken tinyConfig,
      Handler.defaultTTL = DefaultTTL tinyConfig, Handler.maxTTL = MaxTTL tinyConfig\<rparr>"

section \<open>Facts about the tag pattern and the 64-bit arithmetic\<close>

lemmas ttl_eval =
  ParseTTL_def FindStringSubmatch_def optGroup_def isDigit_def Atoi_def digitsValue_def
  add64_def mul64_def wrap64_def MaxInt64_def Hour_def Minute_def Second_def Let_def

lemma wrap64_id: "- (2 ^ 63) \<le> x \<Longrightarrow> x < 2 ^ 63 \<Longrightarrow> wrap64 x = x"
  by (simp add: wrap64_def)

lemma wrap64_idem: "wrap64 (wrap64 x) = wrap64 x"
  by (simp add: wrap64_def)

lemma wrap64_zero: "wrap64 0 = 0"
  by (simp add: wrap64_def)

lemma mul64_zero: "mul64 0 x = 0"
  by (simp add: mul64_def wrap64_def)

lemma add64_zero: "add64 d 0 = wrap64 d"
  by (simp add: add64_def)

lemma wrap64_add64: "wrap64 (add64 a b) = add64 a b"
  by (simp add: add64_def wrap64_idem)

text \<open>
  What one optional group does: it takes no part and leaves the input alone, or it captures
  a non-empty run of digits that the unit letter follows.
\<close>

lemma optGroup_cases:
  assumes "optGroup u s = (g, rest)"
  shows "(g = [] \<and> rest = s) \<or> (g \<noteq> [] \<and> list_all isDigit g \<and> s = g @ u # rest)"
proof (cases "dropWhile isDigit s")
  case Nil
  with assms show ?thesis by (simp add: optGroup_def)
next
  case (Cons c rest')
  have parts: "s = takeWhile isDigit s @ c # rest'"
    using Cons takeWhile_dropWhile_id [of isDigit s] by simp
  have digits: "list_all isDigit (takeWhile isDigit s)"
    by (auto simp: list_all_iff dest: set_takeWhileD)
  show ?thesis
  proof (cases "takeWhile isDigit s \<noteq> [] \<and> c = u")
    case True
    with assms Cons have "g = takeWhile isDigit s" "rest = rest'"
      by (simp_all add: optGroup_def)
    with True parts digits show ?thesis by auto
  next
    case False
    with assms Cons show ?thesis by (auto simp: optGroup_def)
  qed
qed

lemma foldl_digits_nonneg:
  "list_all isDigit g \<Longrightarrow> 0 \<le> n \<Longrightarrow>
     0 \<le> foldl (\<lambda>n c. 10 * n + (of_char c - 48)) (n::int) g"
proof (induction g arbitrary: n)
  case Nil
  then show ?case by simp
next
  case (Cons c g)
  from Cons.prems have "0 \<le> 10 * n + (of_char c - 48)"
    by (simp add: isDigit_def)
  with Cons show ?case by simp
qed

lemma digitsValue_Nil: "digitsValue [] = 0"
  by (simp add: digitsValue_def)

lemma digitsValue_nonneg: "list_all isDigit g \<Longrightarrow> 0 \<le> digitsValue g"
  by (simp add: digitsValue_def foldl_digits_nonneg)

lemma optGroup_value: "optGroup u s = (g, rest) \<Longrightarrow> 0 \<le> digitsValue g"
  using optGroup_cases [of u s g rest] digitsValue_nonneg [of g]
  by (auto simp: digitsValue_Nil)

lemma Atoi_Nil: "Atoi [] = 0"
  by (simp add: Atoi_def digitsValue_def MaxInt64_def)

lemma Atoi_small: "0 \<le> digitsValue g \<Longrightarrow> digitsValue g < 2 ^ 63 \<Longrightarrow> Atoi g = digitsValue g"
  by (simp add: Atoi_def MaxInt64_def)

lemma FindStringSubmatch_Some:
  assumes "FindStringSubmatch tag = Some matches"
  obtains w d h m s s1 s2 s3 s4 where
    "matches = [tag, w, d, h, m, s]"
    "optGroup CHR ''w'' tag = (w, s1)" "optGroup CHR ''d'' s1 = (d, s2)"
    "optGroup CHR ''h'' s2 = (h, s3)" "optGroup CHR ''m'' s3 = (m, s4)"
    "optGroup CHR ''s'' s4 = (s, [])"
  using assms
  by (auto simp: FindStringSubmatch_def Let_def split: prod.splits if_splits)

text \<open>A non-empty tag that matches has a group that took part.\<close>

lemma hasValue:
  assumes "tag \<noteq> []"
    and "optGroup CHR ''w'' tag = (w, s1)" "optGroup CHR ''d'' s1 = (d, s2)"
    and "optGroup CHR ''h'' s2 = (h, s3)" "optGroup CHR ''m'' s3 = (m, s4)"
    and "optGroup CHR ''s'' s4 = (s, [])"
  shows "w \<noteq> [] \<or> d \<noteq> [] \<or> h \<noteq> [] \<or> m \<noteq> [] \<or> s \<noteq> []"
proof (rule ccontr)
  assume "\<not> ?thesis"
  then have e: "w = []" "d = []" "h = []" "m = []" "s = []" by simp_all
  from optGroup_cases [OF assms(2)] e have "s1 = tag" by simp
  moreover from optGroup_cases [OF assms(3)] e have "s2 = s1" by simp
  moreover from optGroup_cases [OF assms(4)] e have "s3 = s2" by simp
  moreover from optGroup_cases [OF assms(5)] e have "s4 = s3" by simp
  moreover from optGroup_cases [OF assms(6)] e have "[] = s4" by simp
  ultimately show False using assms(1) by simp
qed

lemma takeWhile_digits:
  "list_all isDigit g \<Longrightarrow> \<not> isDigit v \<Longrightarrow> takeWhile isDigit (g @ v # rest) = g"
  by (induction g) simp_all

lemma dropWhile_digits:
  "list_all isDigit g \<Longrightarrow> \<not> isDigit v \<Longrightarrow> dropWhile isDigit (g @ v # rest) = v # rest"
  by (induction g) simp_all

lemma optGroup_hit:
  "list_all isDigit g \<Longrightarrow> g \<noteq> [] \<Longrightarrow> \<not> isDigit u \<Longrightarrow> optGroup u (g @ u # rest) = (g, rest)"
  by (simp add: optGroup_def takeWhile_digits dropWhile_digits)

lemma optGroup_miss:
  "list_all isDigit g \<Longrightarrow> \<not> isDigit v \<Longrightarrow> v \<noteq> u \<Longrightarrow>
     optGroup u (g @ v # rest) = ([], g @ v # rest)"
  by (simp add: optGroup_def takeWhile_digits dropWhile_digits)

lemma optGroup_end: "optGroup u [] = ([], [])"
  by (simp add: optGroup_def)

lemma units_not_digits:
  "\<not> isDigit CHR ''w''" "\<not> isDigit CHR ''d''" "\<not> isDigit CHR ''h''"
  "\<not> isDigit CHR ''m''" "\<not> isDigit CHR ''s''"
  by (simp_all add: isDigit_def)

lemma optGroup_component:
  "optGroup u s = (g, rest) \<Longrightarrow> list_all isDigit g \<and> s = component g u @ rest"
  using optGroup_cases [of u s g rest] by (auto simp: component_def)

lemma FindStringSubmatch_complete:
  assumes "list_all isDigit w" "list_all isDigit d" "list_all isDigit h"
    "list_all isDigit m" "list_all isDigit s"
  shows "FindStringSubmatch
           (component w CHR ''w'' @ component d CHR ''d'' @ component h CHR ''h''
              @ component m CHR ''m'' @ component s CHR ''s'')
         = Some [component w CHR ''w'' @ component d CHR ''d'' @ component h CHR ''h''
                   @ component m CHR ''m'' @ component s CHR ''s'', w, d, h, m, s]"
  using assms
  by (simp add: FindStringSubmatch_def component_def optGroup_hit optGroup_miss optGroup_end
      units_not_digits)

lemma FindStringSubmatch_sound:
  assumes "FindStringSubmatch tag = Some matches"
  shows "\<exists>w d h m s. matches = [tag, w, d, h, m, s]
     \<and> list_all isDigit w \<and> list_all isDigit d \<and> list_all isDigit h
     \<and> list_all isDigit m \<and> list_all isDigit s
     \<and> tag = component w CHR ''w'' @ component d CHR ''d'' @ component h CHR ''h''
              @ component m CHR ''m'' @ component s CHR ''s''"
proof -
  from assms obtain w d h m s s1 s2 s3 s4 where
    ms: "matches = [tag, w, d, h, m, s]" and
    g: "optGroup CHR ''w'' tag = (w, s1)" "optGroup CHR ''d'' s1 = (d, s2)"
       "optGroup CHR ''h'' s2 = (h, s3)" "optGroup CHR ''m'' s3 = (m, s4)"
       "optGroup CHR ''s'' s4 = (s, [])"
    by (rule FindStringSubmatch_Some)
  note c = g [THEN optGroup_component]
  from c have "tag = component w CHR ''w'' @ component d CHR ''d'' @ component h CHR ''h''
              @ component m CHR ''m'' @ component s CHR ''s''"
    by simp
  with ms c show ?thesis by blast
qed

text \<open>
  The model of the pattern accepts exactly the language of the regular expression, with the
  captures the expression defines: a tag matches with the captures \<open>w, d, h, m, s\<close> if and
  only if these are runs of digits (empty for a group that takes no part) and the tag is
  the concatenation of the non-empty ones, each followed by its unit letter, in this order.
\<close>

lemma FindStringSubmatch_language:
  "FindStringSubmatch tag = Some matches \<longleftrightarrow>
     (\<exists>w d h m s. matches = [tag, w, d, h, m, s]
        \<and> list_all isDigit w \<and> list_all isDigit d \<and> list_all isDigit h
        \<and> list_all isDigit m \<and> list_all isDigit s
        \<and> tag = component w CHR ''w'' @ component d CHR ''d'' @ component h CHR ''h''
                 @ component m CHR ''m'' @ component s CHR ''s'')"
  using FindStringSubmatch_sound [of tag matches] FindStringSubmatch_complete by auto

text \<open>The additions of \<^verbatim>\<open>ParseTTL\<close>, with the tests for absent groups resolved.\<close>

lemma ParseTTL_chain:
  assumes "tag \<noteq> []"
    and "optGroup CHR ''w'' tag = (w, s1)" "optGroup CHR ''d'' s1 = (d, s2)"
    and "optGroup CHR ''h'' s2 = (h, s3)" "optGroup CHR ''m'' s3 = (m, s4)"
    and "optGroup CHR ''s'' s4 = (s, [])"
  shows "ParseTTL tag =
    add64 (add64 (add64 (add64 (add64 0 (mul64 (mul64 (mul64 (Atoi w) 7) 24) Hour))
      (mul64 (mul64 (Atoi d) 24) Hour)) (mul64 (Atoi h) Hour)) (mul64 (Atoi m) Minute))
      (mul64 (Atoi s) Second)"
proof -
  have m: "FindStringSubmatch tag = Some [tag, w, d, h, m, s]"
    using assms by (simp add: FindStringSubmatch_def)
  have v: "list_ex (\<lambda>m. m \<noteq> []) (tl [tag, w, d, h, m, s])"
    using hasValue [OF assms] by auto
  show ?thesis
    using assms(1) v
    by (simp add: ParseTTL_def m Let_def Atoi_Nil mul64_zero add64_zero wrap64_add64 wrap64_zero)
qed

text \<open>Below \<open>2 ^ 63\<close> nothing wraps.\<close>

lemma chain_no_overflow:
  assumes "0 \<le> a" "0 \<le> b" "0 \<le> c" "0 \<le> e" "0 \<le> f"
    and "a * (7 * 24 * Hour) + b * (24 * Hour) + c * Hour + e * Minute + f * Second < 2 ^ 63"
  shows "add64 (add64 (add64 (add64 (add64 0 (mul64 (mul64 (mul64 a 7) 24) Hour))
           (mul64 (mul64 b 24) Hour)) (mul64 c Hour)) (mul64 e Minute)) (mul64 f Second)
         = a * (7 * 24 * Hour) + b * (24 * Hour) + c * Hour + e * Minute + f * Second"
proof -
  have a7: "mul64 a 7 = a * 7"
    using assms by (simp add: mul64_def Hour_def Minute_def Second_def wrap64_id)
  have a24: "mul64 (a * 7) 24 = a * 7 * 24"
    using assms by (simp add: mul64_def Hour_def Minute_def Second_def wrap64_id)
  have aH: "mul64 (a * 7 * 24) Hour = a * (7 * 24 * Hour)"
    using assms by (simp add: mul64_def Hour_def Minute_def Second_def wrap64_id)
  have b24: "mul64 b 24 = b * 24"
    using assms by (simp add: mul64_def Hour_def Minute_def Second_def wrap64_id)
  have bH: "mul64 (b * 24) Hour = b * (24 * Hour)"
    using assms by (simp add: mul64_def Hour_def Minute_def Second_def wrap64_id)
  have cH: "mul64 c Hour = c * Hour"
    using assms by (simp add: mul64_def Hour_def Minute_def Second_def wrap64_id)
  have eM: "mul64 e Minute = e * Minute"
    using assms by (simp add: mul64_def Hour_def Minute_def Second_def wrap64_id)
  have fS: "mul64 f Second = f * Second"
    using assms by (simp add: mul64_def Hour_def Minute_def Second_def wrap64_id)
  show ?thesis
    unfolding a7 a24 aH b24 bH cH eM fS
    using assms by (simp add: add64_def Hour_def Minute_def Second_def wrap64_id)
qed

lemma ParseTTL_unparseable:
  "tag = [] \<or> FindStringSubmatch tag = None \<Longrightarrow> ParseTTL tag = - 1"
  by (auto simp: ParseTTL_def)

lemma ParseTTL_exact:
  assumes "tag \<noteq> []" and "FindStringSubmatch tag = Some matches"
    and "exactTTL matches < 2 ^ 63"
  shows "ParseTTL tag = exactTTL matches"
    and "0 \<le> exactTTL matches"
    and "exactTTL matches = 0 \<longleftrightarrow> list_all (\<lambda>g. digitsValue g = 0) (tl matches)"
proof -
  from assms(2) obtain w d h m s s1 s2 s3 s4 where
    ms: "matches = [tag, w, d, h, m, s]" and
    g: "optGroup CHR ''w'' tag = (w, s1)" "optGroup CHR ''d'' s1 = (d, s2)"
       "optGroup CHR ''h'' s2 = (h, s3)" "optGroup CHR ''m'' s3 = (m, s4)"
       "optGroup CHR ''s'' s4 = (s, [])"
    by (rule FindStringSubmatch_Some)
  have nn: "0 \<le> digitsValue w" "0 \<le> digitsValue d" "0 \<le> digitsValue h"
    "0 \<le> digitsValue m" "0 \<le> digitsValue s"
    using g by (auto dest: optGroup_value)
  have ex: "exactTTL matches = digitsValue w * (7 * 24 * Hour) + digitsValue d * (24 * Hour)
     + digitsValue h * Hour + digitsValue m * Minute + digitsValue s * Second"
    by (simp add: ms exactTTL_def)
  have bound: "digitsValue w * (7 * 24 * Hour) + digitsValue d * (24 * Hour)
     + digitsValue h * Hour + digitsValue m * Minute + digitsValue s * Second < 2 ^ 63"
    using assms(3) ex by simp
  have small: "digitsValue w < 2 ^ 63" "digitsValue d < 2 ^ 63" "digitsValue h < 2 ^ 63"
    "digitsValue m < 2 ^ 63" "digitsValue s < 2 ^ 63"
    using nn bound by (simp_all add: Hour_def Minute_def Second_def)
  have at: "Atoi w = digitsValue w" "Atoi d = digitsValue d" "Atoi h = digitsValue h"
    "Atoi m = digitsValue m" "Atoi s = digitsValue s"
    using nn small by (simp_all add: Atoi_small)
  show "ParseTTL tag = exactTTL matches"
    unfolding ParseTTL_chain [OF assms(1) g] at ex
    by (rule chain_no_overflow [OF nn bound])
  show "0 \<le> exactTTL matches"
    unfolding ex using nn by (simp add: Hour_def Minute_def Second_def)
  show "exactTTL matches = 0 \<longleftrightarrow> list_all (\<lambda>g. digitsValue g = 0) (tl matches)"
    unfolding ex using nn by (auto simp: ms Hour_def Minute_def Second_def)
qed

lemma ClampTTL_pos: "0 < dflt \<Longrightarrow> 0 < mx \<Longrightarrow> 0 < ClampTTL d dflt mx"
  by (simp add: ClampTTL_def)

lemma Validate_None:
  "Validate c = None \<Longrightarrow> 0 < DefaultTTL c \<and> 0 < MaxTTL c \<and> DefaultTTL c \<le> MaxTTL c"
  by (auto simp: Validate_def split: if_splits)

section \<open>The claims about parsing and clamping\<close>

text \<open>
  C3, as the code has it. The claim reads: for every \<open>d\<close> and every \<open>defaultTTL > maxTTL\<close>,
  \<^verbatim>\<open>ClampTTL\<close> returns \<open>maxTTL\<close> and never more. The code clamps a positive \<open>d\<close> to
  \<open>maxTTL\<close> whatever the default is, but hands a non-positive \<open>d\<close> the default unchanged;
  the order of the two limits is checked by \<^verbatim>\<open>Config.Validate\<close>, which every command runs
  before it builds a handler or a runner. So: a positive \<open>d\<close> never yields more than
  \<open>maxTTL\<close>; a non-positive \<open>d\<close> yields \<open>defaultTTL\<close>; and under a validated configuration
  the result never exceeds \<open>MaxTTL\<close>.
\<close>

theorem ClampTTL_within_max:
  "(0 < d \<longrightarrow> ClampTTL d dflt mx \<le> mx) \<and>
   (d \<le> 0 \<longrightarrow> ClampTTL d dflt mx = dflt) \<and>
   (Validate c = None \<longrightarrow> ClampTTL d (DefaultTTL c) (MaxTTL c) \<le> MaxTTL c)"
  using Validate_None [of c] by (auto simp: ClampTTL_def)

theorem ClampTTL_within_max_witness:
  "ClampTTL (48 * Hour) (36 * Hour) (24 * Hour) \<le> 24 * Hour \<and>
   ClampTTL (- 1) (36 * Hour) (24 * Hour) = 36 * Hour \<and>
   Validate exampleConfig = None \<and>
   ClampTTL (- 1) (DefaultTTL exampleConfig) (MaxTTL exampleConfig) \<le> MaxTTL exampleConfig"
  using ClampTTL_within_max [of "48 * Hour" "36 * Hour" "24 * Hour" exampleConfig]
    ClampTTL_within_max [of "- 1" "36 * Hour" "24 * Hour" exampleConfig]
  by (simp add: Validate_def exampleConfig_def Hour_def Minute_def Second_def)

text \<open>
  C3 as stated fails: with \<open>defaultTTL = 36h > maxTTL = 24h\<close> and the result \<open>- 1\<close> of a
  failed parse, \<^verbatim>\<open>ClampTTL\<close> returns 36 hours, which is not \<open>maxTTL\<close> and exceeds it.
\<close>

theorem ClampTTL_over_max_counterexample:
  "36 * Hour > 24 * Hour \<and>
   ClampTTL (- 1) (36 * Hour) (24 * Hour) \<noteq> 24 * Hour \<and>
   \<not> ClampTTL (- 1) (36 * Hour) (24 * Hour) \<le> 24 * Hour"
  by (simp add: ClampTTL_def Hour_def Minute_def Second_def)

text \<open>
  C4, as the code has it. The claim reads: \<^verbatim>\<open>ParseTTL\<close> returns \<open>- 1\<close> or a strictly positive
  duration, and no accepted tag yields a non-positive one. The code returns \<open>- 1\<close> for the
  empty tag and for a tag the pattern does not match; for a matching tag whose exact sum of
  components is below \<open>2 ^ 63\<close> nanoseconds it returns that sum, which is never negative and
  is zero exactly when every magnitude is zero.
\<close>

theorem ParseTTL_result:
  "(tag = [] \<or> FindStringSubmatch tag = None \<longrightarrow> ParseTTL tag = - 1) \<and>
   (tag \<noteq> [] \<and> FindStringSubmatch tag = Some matches \<and> exactTTL matches < 2 ^ 63 \<longrightarrow>
      ParseTTL tag = exactTTL matches \<and> 0 \<le> ParseTTL tag \<and>
      (ParseTTL tag = 0 \<longleftrightarrow> list_all (\<lambda>g. digitsValue g = 0) (tl matches)))"
  using ParseTTL_unparseable [of tag] ParseTTL_exact [of tag matches] by auto

theorem ParseTTL_result_witness:
  "ParseTTL ''latest'' = - 1 \<and> ParseTTL ''1h30m'' = 90 * Minute \<and> ParseTTL ''0s'' = 0"
  using ParseTTL_result [of "''latest''" "[]"]
    ParseTTL_result [of "''1h30m''" "[''1h30m'', [], [], ''1'', ''30'', []]"]
    ParseTTL_result [of "''0s''" "[''0s'', [], [], [], [], ''0'']"]
  by (simp add: FindStringSubmatch_def optGroup_def isDigit_def exactTTL_def digitsValue_def
      Hour_def Minute_def Second_def)

text \<open>
  C4 as stated fails: the tag \<^verbatim>\<open>0s\<close> is accepted and yields the duration 0, and the tag
  \<^verbatim>\<open>20000w\<close> is accepted and, by 64-bit wrap-around, yields a negative duration other
  than \<open>- 1\<close>.
\<close>

theorem ParseTTL_nonpositive_counterexample:
  "\<not> (ParseTTL ''0s'' = - 1 \<or> 0 < ParseTTL ''0s'') \<and>
   \<not> (ParseTTL ''20000w'' = - 1 \<or> 0 < ParseTTL ''20000w'')"
  by (simp add: ttl_eval)

text \<open>
  C8, as the code has it. The claim reads: \<^verbatim>\<open>ClampTTL\<close> is idempotent for every \<open>d\<close>, the
  limits held fixed. In the code this holds for every \<open>d\<close> exactly when \<open>maxTTL\<close> is positive
  and \<open>defaultTTL \<le> maxTTL\<close>, or the two limits are equal; in particular under every
  configuration that \<^verbatim>\<open>Config.Validate\<close> accepts.
\<close>

theorem ClampTTL_idempotent_iff:
  "(\<forall>d. ClampTTL (ClampTTL d dflt mx) dflt mx = ClampTTL d dflt mx)
     \<longleftrightarrow> (0 < mx \<and> dflt \<le> mx) \<or> dflt = mx"
proof
  assume a: "\<forall>d. ClampTTL (ClampTTL d dflt mx) dflt mx = ClampTTL d dflt mx"
  from a have a0: "ClampTTL (ClampTTL 0 dflt mx) dflt mx = ClampTTL 0 dflt mx" by blast
  from a have a1: "ClampTTL (ClampTTL 1 dflt mx) dflt mx = ClampTTL 1 dflt mx" by blast
  from a0 a1 show "(0 < mx \<and> dflt \<le> mx) \<or> dflt = mx"
    by (auto simp: ClampTTL_def split: if_splits)
next
  assume "(0 < mx \<and> dflt \<le> mx) \<or> dflt = mx"
  then show "\<forall>d. ClampTTL (ClampTTL d dflt mx) dflt mx = ClampTTL d dflt mx"
    by (auto simp: ClampTTL_def)
qed

theorem ClampTTL_idempotent_iff_witness:
  "ClampTTL (ClampTTL (- 1) Hour (24 * Hour)) Hour (24 * Hour) = ClampTTL (- 1) Hour (24 * Hour) \<and>
   ClampTTL (ClampTTL (48 * Hour) Hour (24 * Hour)) Hour (24 * Hour)
     = ClampTTL (48 * Hour) Hour (24 * Hour)"
  using ClampTTL_idempotent_iff [of Hour "24 * Hour"]
  by (simp add: Hour_def Minute_def Second_def)

text \<open>
  C8 as stated fails: with \<open>defaultTTL = 36h\<close> and \<open>maxTTL = 24h\<close>, clamping \<open>- 1\<close> gives
  36 hours and clamping that again gives 24 hours.
\<close>

theorem ClampTTL_idempotent_counterexample:
  "ClampTTL (ClampTTL (- 1) (36 * Hour) (24 * Hour)) (36 * Hour) (24 * Hour)
     \<noteq> ClampTTL (- 1) (36 * Hour) (24 * Hour)"
  by (simp add: ClampTTL_def Hour_def Minute_def Second_def)

text \<open>
  C9. With \<open>maxTTL\<close> at least 252 hours, parsing and then clamping gives 5 minutes for
  \<^verbatim>\<open>5m\<close>, 1 hour for \<^verbatim>\<open>1h\<close>, 90 minutes for \<^verbatim>\<open>1h30m\<close>, 48 hours for \<^verbatim>\<open>2d\<close>, 168 hours
  for \<^verbatim>\<open>1w\<close> and 252 hours for \<^verbatim>\<open>1w3d12h\<close>; and \<^verbatim>\<open>latest\<close>, the empty tag, \<^verbatim>\<open>v1.0.0\<close>
  and \<^verbatim>\<open>sha-abc123\<close> are unparseable and give \<open>defaultTTL\<close>.
\<close>

theorem ParseTTL_ClampTTL_examples:
  assumes "252 * Hour \<le> mx"
  shows "ClampTTL (ParseTTL ''5m'') dflt mx = 5 * Minute \<and>
    ClampTTL (ParseTTL ''1h'') dflt mx = Hour \<and>
    ClampTTL (ParseTTL ''1h30m'') dflt mx = 90 * Minute \<and>
    ClampTTL (ParseTTL ''2d'') dflt mx = 48 * Hour \<and>
    ClampTTL (ParseTTL ''1w'') dflt mx = 168 * Hour \<and>
    ClampTTL (ParseTTL ''1w3d12h'') dflt mx = 252 * Hour \<and>
    ParseTTL ''latest'' = - 1 \<and> ClampTTL (ParseTTL ''latest'') dflt mx = dflt \<and>
    ParseTTL [] = - 1 \<and> ClampTTL (ParseTTL []) dflt mx = dflt \<and>
    ParseTTL ''v1.0.0'' = - 1 \<and> ClampTTL (ParseTTL ''v1.0.0'') dflt mx = dflt \<and>
    ParseTTL ''sha-abc123'' = - 1 \<and> ClampTTL (ParseTTL ''sha-abc123'') dflt mx = dflt"
proof -
  have p: "ParseTTL ''5m'' = 5 * Minute" "ParseTTL ''1h'' = Hour"
    "ParseTTL ''1h30m'' = 90 * Minute" "ParseTTL ''2d'' = 48 * Hour"
    "ParseTTL ''1w'' = 168 * Hour" "ParseTTL ''1w3d12h'' = 252 * Hour"
    "ParseTTL ''latest'' = - 1" "ParseTTL [] = - 1"
    "ParseTTL ''v1.0.0'' = - 1" "ParseTTL ''sha-abc123'' = - 1"
    by (simp_all add: ttl_eval)
  show ?thesis
    unfolding p using assms by (simp add: ClampTTL_def Hour_def Minute_def Second_def)
qed

theorem ParseTTL_ClampTTL_examples_witness:
  "ClampTTL (ParseTTL ''1w3d12h'') Hour (252 * Hour) = 252 * Hour \<and>
   ClampTTL (ParseTTL ''1h30m'') Hour (252 * Hour) = 90 * Minute \<and>
   ClampTTL (ParseTTL ''latest'') Hour (252 * Hour) = Hour"
proof -
  have h: "252 * Hour \<le> 252 * Hour" by simp
  from ParseTTL_ClampTTL_examples [OF h, of Hour] show ?thesis by blast
qed

section \<open>Facts about the calls of the handler and the runner\<close>

lemma newCalls_append: "newCalls t (t @ cs) = cs"
  by (simp add: newCalls_def)

lemma trackedRefs_append: "trackedRefs (cs @ ds) = trackedRefs cs @ trackedRefs ds"
  by (induction cs rule: trackedRefs.induct) simp_all

lemma listedRepos_append: "listedRepos (cs @ ds) = listedRepos cs @ listedRepos ds"
  by (induction cs rule: listedRepos.induct) simp_all

lemma writesAhead_append:
  "writesAhead now t (cs @ ds) = (writesAhead now t cs \<and> writesAhead now (t @ cs) ds)"
  by (induction cs arbitrary: t) simp_all

lemma imagesOf_Cons:
  "imagesOf reg (repo # repos) =
     (case ListTags reg repo of Inl err \<Rightarrow> [] | Inr tags \<Rightarrow> map (\<lambda>tag. repo @ '':'' @ tag) tags)
     @ imagesOf reg repos"
  by (simp add: imagesOf_def)

text \<open>
  The inner loop of \<^verbatim>\<open>Run\<close>: one tracking write per tag, whatever the store answers, and
  the counter grows by the number of writes the store accepted.
\<close>

lemma trackTags_calls:
  "\<exists>cs. trackTags now r repo tags (n, t)
           = (n + length (filter (stored (Runner.redis r)) cs), t @ cs)
     \<and> trackedRefs cs = map (\<lambda>tag. repo @ '':'' @ tag) tags
     \<and> listedRepos cs = []
     \<and> SetInitializedCall \<notin> set cs
     \<and> (0 < Runner.defaultTTL r \<and> 0 < Runner.maxTTL r \<longrightarrow> writesAhead now t cs)"
proof (induction tags arbitrary: n t)
  case Nil
  show ?case by (rule exI [of _ "[]"]) simp
next
  case (Cons tag tags)
  define e where "e = now t + ClampTTL (ParseTTL tag) (Runner.defaultTTL r) (Runner.maxTTL r)"
  define c where "c = TrackImageCall (repo @ '':'' @ tag) e"
  define n' where
    "n' = (case TrackImage (Runner.redis r) (repo @ '':'' @ tag) e of
             Some err \<Rightarrow> n | None \<Rightarrow> n + 1)"
  have step: "trackTags now r repo (tag # tags) (n, t) = trackTags now r repo tags (n', t @ [c])"
    by (simp add: e_def c_def n'_def Let_def split: option.splits)
  from Cons.IH [of n' "t @ [c]"] obtain cs where
    cs: "trackTags now r repo tags (n', t @ [c])
           = (n' + length (filter (stored (Runner.redis r)) cs), (t @ [c]) @ cs)"
      "trackedRefs cs = map (\<lambda>tag. repo @ '':'' @ tag) tags"
      "listedRepos cs = []" "SetInitializedCall \<notin> set cs"
      "0 < Runner.defaultTTL r \<and> 0 < Runner.maxTTL r \<longrightarrow> writesAhead now (t @ [c]) cs"
    by blast
  have n: "n' + length (filter (stored (Runner.redis r)) cs)
             = n + length (filter (stored (Runner.redis r)) (c # cs))"
    by (simp add: n'_def c_def split: option.splits)
  have ahead: "0 < Runner.defaultTTL r \<and> 0 < Runner.maxTTL r \<longrightarrow> now t < e"
    using ClampTTL_pos [of "Runner.defaultTTL r" "Runner.maxTTL r" "ParseTTL tag"]
    by (simp add: e_def)
  show ?case
    apply (rule exI [of _ "c # cs"])
    using step cs n ahead by (simp add: c_def)
qed

text \<open>The outer loop: every repository is asked for its tags, whatever the others answered.\<close>

lemma scanRepos_calls:
  "\<exists>cs. scanRepos now r repos (n, t)
           = (n + length (filter (stored (Runner.redis r)) cs), t @ cs)
     \<and> trackedRefs cs = imagesOf (registry r) repos
     \<and> listedRepos cs = repos
     \<and> SetInitializedCall \<notin> set cs
     \<and> (0 < Runner.defaultTTL r \<and> 0 < Runner.maxTTL r \<longrightarrow> writesAhead now t cs)"
proof (induction repos arbitrary: n t)
  case Nil
  show ?case by (rule exI [of _ "[]"]) (simp add: imagesOf_def)
next
  case (Cons repo repos)
  show ?case
  proof (cases "ListTags (registry r) repo")
    case (Inl err)
    from Cons.IH [of n "t @ [ListTagsCall repo]"] obtain cs where
      cs: "scanRepos now r repos (n, t @ [ListTagsCall repo])
             = (n + length (filter (stored (Runner.redis r)) cs), (t @ [ListTagsCall repo]) @ cs)"
        "trackedRefs cs = imagesOf (registry r) repos" "listedRepos cs = repos"
        "SetInitializedCall \<notin> set cs"
        "0 < Runner.defaultTTL r \<and> 0 < Runner.maxTTL r
           \<longrightarrow> writesAhead now (t @ [ListTagsCall repo]) cs"
      by blast
    show ?thesis
      apply (rule exI [of _ "ListTagsCall repo # cs"])
      using Inl cs by (simp add: imagesOf_Cons)
  next
    case (Inr tags)
    from trackTags_calls [of now r repo tags n "t @ [ListTagsCall repo]"] obtain ds where
      ds: "trackTags now r repo tags (n, t @ [ListTagsCall repo])
             = (n + length (filter (stored (Runner.redis r)) ds), (t @ [ListTagsCall repo]) @ ds)"
        "trackedRefs ds = map (\<lambda>tag. repo @ '':'' @ tag) tags" "listedRepos ds = []"
        "SetInitializedCall \<notin> set ds"
        "0 < Runner.defaultTTL r \<and> 0 < Runner.maxTTL r
           \<longrightarrow> writesAhead now (t @ [ListTagsCall repo]) ds"
      by blast
    from Cons.IH [of "n + length (filter (stored (Runner.redis r)) ds)"
        "(t @ [ListTagsCall repo]) @ ds"] obtain cs where
      cs: "scanRepos now r repos
             (n + length (filter (stored (Runner.redis r)) ds), (t @ [ListTagsCall repo]) @ ds)
             = (n + length (filter (stored (Runner.redis r)) ds)
                  + length (filter (stored (Runner.redis r)) cs),
                ((t @ [ListTagsCall repo]) @ ds) @ cs)"
        "trackedRefs cs = imagesOf (registry r) repos" "listedRepos cs = repos"
        "SetInitializedCall \<notin> set cs"
        "0 < Runner.defaultTTL r \<and> 0 < Runner.maxTTL r
           \<longrightarrow> writesAhead now ((t @ [ListTagsCall repo]) @ ds) cs"
      by blast
    show ?thesis
      apply (rule exI [of _ "ListTagsCall repo # ds @ cs"])
      using Inr ds cs
      by (simp add: imagesOf_Cons trackedRefs_append listedRepos_append writesAhead_append)
  qed
qed

lemma Run_fails:
  "ListRepositories (registry r) = Inl e \<Longrightarrow>
     Run now r t = (Some (Wrapf ''listing repositories'' e), 0, t @ [ListRepositoriesCall])"
  by (simp add: Run_def)

lemma Run_calls:
  assumes "ListRepositories (registry r) = Inr repos"
  shows "\<exists>cs. Run now r t
           = (None, length (filter (stored (Runner.redis r)) cs), t @ ListRepositoriesCall # cs)
     \<and> trackedRefs cs = imagesOf (registry r) repos
     \<and> listedRepos cs = repos
     \<and> SetInitializedCall \<notin> set cs
     \<and> (0 < Runner.defaultTTL r \<and> 0 < Runner.maxTTL r
          \<longrightarrow> writesAhead now (t @ [ListRepositoriesCall]) cs)"
proof -
  from scanRepos_calls [of now r repos 0 "t @ [ListRepositoriesCall]"] obtain cs where
    cs: "scanRepos now r repos (0, t @ [ListRepositoriesCall])
           = (0 + length (filter (stored (Runner.redis r)) cs), (t @ [ListRepositoriesCall]) @ cs)"
      "trackedRefs cs = imagesOf (registry r) repos" "listedRepos cs = repos"
      "SetInitializedCall \<notin> set cs"
      "0 < Runner.defaultTTL r \<and> 0 < Runner.maxTTL r
         \<longrightarrow> writesAhead now (t @ [ListRepositoriesCall]) cs"
    by blast
  show ?thesis
    apply (rule exI [of _ cs])
    using assms cs by (simp add: Run_def)
qed


text \<open>The loop of \<^verbatim>\<open>ServeHTTP\<close> over the events.\<close>

lemma handleEvents_calls:
  "\<exists>cs. handleEvents now h events t = t @ cs
     \<and> (0 < Handler.defaultTTL h \<and> 0 < Handler.maxTTL h \<longrightarrow> writesAhead now t cs)"
proof (induction events arbitrary: t)
  case Nil
  show ?case by (rule exI [of _ "[]"]) simp
next
  case (Cons event events)
  show ?case
  proof (cases "Action event \<noteq> ''push'' \<or> Repository (Target event) = []
      \<or> Tag (Target event) = []")
    case True
    with Cons.IH [of t] show ?thesis by auto
  next
    case False
    define e where
      "e = now t + ClampTTL (ParseTTL (Tag (Target event)))
                     (Handler.defaultTTL h) (Handler.maxTTL h)"
    define c where
      "c = TrackImageCall (Repository (Target event) @ '':'' @ Tag (Target event)) e"
    have step: "handleEvents now h (event # events) t = handleEvents now h events (t @ [c])"
      using False by (simp add: handlePush_def Let_def c_def e_def)
    from Cons.IH [of "t @ [c]"] obtain cs where
      cs: "handleEvents now h events (t @ [c]) = (t @ [c]) @ cs"
        "0 < Handler.defaultTTL h \<and> 0 < Handler.maxTTL h \<longrightarrow> writesAhead now (t @ [c]) cs"
      by blast
    have ahead: "0 < Handler.defaultTTL h \<and> 0 < Handler.maxTTL h \<longrightarrow> now t < e"
      using ClampTTL_pos [of "Handler.defaultTTL h" "Handler.maxTTL h"
          "ParseTTL (Tag (Target event))"]
      by (simp add: e_def)
    show ?thesis
      apply (rule exI [of _ "c # cs"])
      using step cs ahead by (simp add: c_def)
  qed
qed

lemma ServeHTTP_ahead:
  assumes "0 < Handler.defaultTTL h" and "0 < Handler.maxTTL h"
  shows "writesAhead now t (newCalls t (snd (ServeHTTP now h req t)))"
proof (cases "Method req = ''POST'' \<and> Authorization req = ''Token '' @ hookToken h")
  case False
  then show ?thesis by (auto simp: ServeHTTP_def newCalls_def)
next
  case True
  show ?thesis
  proof (cases "Body req")
    case (Inl err)
    with True show ?thesis by (simp add: ServeHTTP_def newCalls_def)
  next
    case (Inr envelope)
    from handleEvents_calls [of now h "Events envelope" t] assms obtain cs where
      "handleEvents now h (Events envelope) t = t @ cs" "writesAhead now t cs"
      by auto
    with True Inr show ?thesis by (simp add: ServeHTTP_def newCalls_append)
  qed
qed

lemma Run_ahead:
  assumes "0 < Runner.defaultTTL r" and "0 < Runner.maxTTL r"
  shows "writesAhead now t (newCalls t (snd (snd (Run now r t))))"
proof (cases "ListRepositories (registry r)")
  case (Inl e)
  then show ?thesis by (simp add: Run_fails newCalls_append)
next
  case (Inr repos)
  from Run_calls [OF Inr, of now t] assms obtain cs where
    "Run now r t
       = (None, length (filter (stored (Runner.redis r)) cs), t @ ListRepositoriesCall # cs)"
    "writesAhead now (t @ [ListRepositoriesCall]) cs"
    by auto
  then show ?thesis by (simp add: newCalls_append)
qed

lemmas flow_eval =
  exampleClock_def downStore_def freshStore_def readyStore_def exampleRegistry_def
  downRegistry_def exampleRunner_def exampleHandler_def pushRequest_def
  Run_def RunIfNeeded_def ServeHTTP_def handlePush_def newCalls_def ClampTTL_def
  StatusOK_def StatusBadRequest_def StatusUnauthorized_def StatusMethodNotAllowed_def

text \<open>What the Redis client stores and reads back.\<close>

lemma digitChar_digit:
  assumes "0 \<le> k" and "k < 10"
  shows "isDigit (digitChar k)" and "of_char (digitChar k) = 48 + k"
proof -
  from assms have "k = 0 \<or> k = 1 \<or> k = 2 \<or> k = 3 \<or> k = 4 \<or> k = 5 \<or> k = 6 \<or> k = 7
      \<or> k = 8 \<or> k = 9"
    by arith
  then show "isDigit (digitChar k)" and "of_char (digitChar k) = 48 + k"
    by (auto simp: digitChar_def isDigit_def)
qed

lemma digitsValue_snoc: "digitsValue (ds @ [c]) = 10 * digitsValue ds + (of_char c - 48)"
  by (simp add: digitsValue_def)

lemma formatUint_digits:
  "0 \<le> n \<Longrightarrow> list_all isDigit (formatUint n) \<and> formatUint n \<noteq> [] \<and> digitsValue (formatUint n) = n"
proof (induction n rule: formatUint.induct)
  case (1 n)
  show ?case
  proof (cases "n < 10")
    case True
    have f: "formatUint n = [digitChar n]"
      using True by (simp add: formatUint.simps)
    from digitChar_digit [OF "1.prems" True] show ?thesis
      by (simp add: f digitsValue_def)
  next
    case False
    have f: "formatUint n = formatUint (n div 10) @ [digitChar (n mod 10)]"
      using False by (subst formatUint.simps) simp
    have nn: "0 \<le> n div 10" using "1.prems" by simp
    from "1.IH" [OF False nn] have ih: "list_all isDigit (formatUint (n div 10))"
      "digitsValue (formatUint (n div 10)) = n div 10"
      by simp_all
    have d: "isDigit (digitChar (n mod 10))" "of_char (digitChar (n mod 10)) = 48 + n mod 10"
      by (rule digitChar_digit; simp)+
    show ?thesis
      using ih d by (simp add: f digitsValue_snoc)
  qed
qed

lemma digit_not_sign: "isDigit c \<Longrightarrow> c \<noteq> CHR ''+'' \<and> c \<noteq> CHR ''-''"
  by (auto simp: isDigit_def)

lemma ParseInt_FormatInt:
  assumes "- (2 ^ 63) \<le> i" and "i < 2 ^ 63"
  shows "ParseInt (FormatInt i) = Inr i"
proof (cases "i < 0")
  case True
  then have nn: "0 \<le> - i" by simp
  note f = formatUint_digits [OF nn]
  show ?thesis
    using True assms f by (simp add: ParseInt_def FormatInt_def MaxInt64_def)
next
  case False
  then have nn: "0 \<le> i" by simp
  note f = formatUint_digits [OF nn]
  from f obtain c rest where cr: "formatUint i = c # rest"
    by (cases "formatUint i") auto
  with f have "isDigit c" by simp
  then have "c \<noteq> CHR ''+'' \<and> c \<noteq> CHR ''-''" by (rule digit_not_sign)
  then show ?thesis
    using False assms f cr by (simp add: ParseInt_def FormatInt_def MaxInt64_def)
qed

lemma Client_TrackImage_stored:
  "fst (Client_TrackImage Executed created ref e rdb) = None"
  "ref \<in> images (snd (Client_TrackImage Executed created ref e rdb))"
  "hashes (snd (Client_TrackImage Executed created ref e rdb)) ref ''expires''
     = Some (FormatInt (UnixMilli e))"
  "hashes (snd (Client_TrackImage Executed created ref e rdb)) ref ''created''
     = Some (FormatInt (UnixMilli created))"
  by (simp_all add: Client_TrackImage_def)

lemma Client_GetExpiry_stored:
  assumes "- (2 ^ 63) \<le> UnixMilli e" and "UnixMilli e < 2 ^ 63"
  shows "Client_GetExpiry None (snd (Client_TrackImage Executed created ref e rdb)) ref
           = Inr (UnixMilli e)"
  using ParseInt_FormatInt [OF assms]
  by (simp add: Client_GetExpiry_def Client_TrackImage_stored)

lemma UnixMilli_mono: "n \<le> e \<Longrightarrow> UnixMilli n \<le> UnixMilli e"
  by (simp add: UnixMilli_def zdiv_mono1)

lemma UnixMilli_strict: "c + Millisecond \<le> e \<Longrightarrow> UnixMilli c < UnixMilli e"
proof -
  assume "c + Millisecond \<le> e"
  then have "UnixMilli (c + Millisecond) \<le> UnixMilli e" by (rule UnixMilli_mono)
  moreover have "UnixMilli (c + Millisecond) = UnixMilli c + 1"
    by (simp add: UnixMilli_def Millisecond_def)
  ultimately show ?thesis by simp
qed

lemma writesAhead_stored: "writesAhead now t cs \<Longrightarrow> writesStored now t cs"
proof (induction cs arbitrary: t)
  case Nil
  show ?case by simp
next
  case (Cons c cs)
  then show ?case
    by (cases c) (auto intro: UnixMilli_mono)
qed


text \<open>Without overflow a parsed duration is a whole number of seconds.\<close>

lemma ParseTTL_seconds:
  assumes "tag \<noteq> []" and "FindStringSubmatch tag = Some matches"
    and "exactTTL matches < 2 ^ 63"
  shows "ParseTTL tag = 0 \<or> Second \<le> ParseTTL tag"
proof -
  from assms(2) obtain w d h m s s1 s2 s3 s4 where
    ms: "matches = [tag, w, d, h, m, s]" and
    g: "optGroup CHR ''w'' tag = (w, s1)" "optGroup CHR ''d'' s1 = (d, s2)"
       "optGroup CHR ''h'' s2 = (h, s3)" "optGroup CHR ''m'' s3 = (m, s4)"
       "optGroup CHR ''s'' s4 = (s, [])"
    by (rule FindStringSubmatch_Some)
  have nn: "0 \<le> digitsValue w" "0 \<le> digitsValue d" "0 \<le> digitsValue h"
    "0 \<le> digitsValue m" "0 \<le> digitsValue s"
    using g by (auto dest: optGroup_value)
  have "ParseTTL tag = exactTTL matches" using assms by (rule ParseTTL_exact(1))
  moreover have "exactTTL matches = 0 \<or> Second \<le> exactTTL matches"
  proof -
    define k where "k = digitsValue w * 604800 + digitsValue d * 86400
      + digitsValue h * 3600 + digitsValue m * 60 + digitsValue s"
    have e: "exactTTL matches = Second * k"
      by (simp add: ms exactTTL_def Hour_def Minute_def Second_def k_def)
    have "0 \<le> k" using nn by (simp add: k_def)
    then have "k = 0 \<or> 1 \<le> k" by linarith
    then show ?thesis
    proof
      assume "k = 0" then show ?thesis by (simp add: e)
    next
      assume "1 \<le> k"
      then have "Second * 1 \<le> Second * k"
        by (intro mult_left_mono) (simp_all add: Second_def)
      then show ?thesis by (simp add: e)
    qed
  qed
  ultimately show ?thesis by simp
qed

lemma ClampTTL_millisecond:
  assumes "Millisecond \<le> dflt" and "Millisecond \<le> mx"
    and "FindStringSubmatch tag = None
         \<or> (FindStringSubmatch tag = Some matches \<and> exactTTL matches < 2 ^ 63)"
  shows "Millisecond \<le> ClampTTL (ParseTTL tag) dflt mx"
proof (cases "tag = [] \<or> FindStringSubmatch tag = None")
  case True
  then have "ParseTTL tag = - 1" by (rule ParseTTL_unparseable)
  with assms(1) show ?thesis by (simp add: ClampTTL_def)
next
  case False
  then have ne: "tag \<noteq> []" and fs: "FindStringSubmatch tag \<noteq> None" by simp_all
  from fs assms(3) have m: "FindStringSubmatch tag = Some matches"
    and x: "exactTTL matches < 2 ^ 63" by auto
  from ne m x have "ParseTTL tag = 0 \<or> Second \<le> ParseTTL tag"
    by (rule ParseTTL_seconds)
  with assms(1,2) show ?thesis
    by (auto simp: ClampTTL_def Millisecond_def Second_def)
qed

section \<open>The claims about reconciliation and ingestion\<close>



text \<open>
  C6. \<^verbatim>\<open>Run\<close>: when the catalog cannot be listed, it returns an error after that one call,
  before any tracking write. Otherwise it returns no error, asks every repository of the
  catalog for its tags, in order, whether or not an earlier listing or write failed, and
  calls \<^verbatim>\<open>TrackImage\<close> for every tag of every repository whose tags it could list (a
  repository whose listing failed contributes nothing, and nothing else is skipped); the
  images it counts as recovered are the writes the store accepted.
\<close>

theorem Run_isolation:
  "(ListRepositories (registry r) = Inl e \<longrightarrow>
      fst (Run now r t) = Some (Wrapf ''listing repositories'' e) \<and>
      newCalls t (snd (snd (Run now r t))) = [ListRepositoriesCall]) \<and>
   (ListRepositories (registry r) = Inr repos \<longrightarrow>
      fst (Run now r t) = None \<and>
      listedRepos (newCalls t (snd (snd (Run now r t)))) = repos \<and>
      trackedRefs (newCalls t (snd (snd (Run now r t)))) = imagesOf (registry r) repos \<and>
      fst (snd (Run now r t))
        = length (filter (stored (Runner.redis r)) (newCalls t (snd (snd (Run now r t))))))"
proof (intro conjI impI)
  assume "ListRepositories (registry r) = Inl e"
  then show "fst (Run now r t) = Some (Wrapf ''listing repositories'' e)"
    and "newCalls t (snd (snd (Run now r t))) = [ListRepositoriesCall]"
    by (simp_all add: Run_fails newCalls_append)
next
  assume a: "ListRepositories (registry r) = Inr repos"
  from Run_calls [OF a, of now t] obtain cs where
    cs: "Run now r t
           = (None, length (filter (stored (Runner.redis r)) cs), t @ ListRepositoriesCall # cs)"
      "trackedRefs cs = imagesOf (registry r) repos" "listedRepos cs = repos"
    by blast
  show "fst (Run now r t) = None" by (simp add: cs)
  show "listedRepos (newCalls t (snd (snd (Run now r t)))) = repos"
    by (simp add: cs newCalls_append)
  show "trackedRefs (newCalls t (snd (snd (Run now r t)))) = imagesOf (registry r) repos"
    by (simp add: cs newCalls_append)
  show "fst (snd (Run now r t))
        = length (filter (stored (Runner.redis r)) (newCalls t (snd (snd (Run now r t)))))"
    by (simp add: cs newCalls_append)
qed

theorem Run_isolation_witness:
  "fst (Run exampleClock (exampleRunner freshStore downRegistry) [])
     = Some (Wrapf ''listing repositories'' (Errorf ''listing catalog'')) \<and>
   newCalls [] (snd (snd (Run exampleClock (exampleRunner freshStore downRegistry) [])))
     = [ListRepositoriesCall] \<and>
   fst (Run exampleClock (exampleRunner freshStore exampleRegistry) []) = None \<and>
   listedRepos (newCalls [] (snd (snd (Run exampleClock (exampleRunner freshStore exampleRegistry) []))))
     = [''a'', ''b'', ''c''] \<and>
   trackedRefs (newCalls [] (snd (snd (Run exampleClock (exampleRunner freshStore exampleRegistry) []))))
     = [''a:1h'', ''c:latest'', ''c:5m''] \<and>
   fst (snd (Run exampleClock (exampleRunner freshStore exampleRegistry) [])) = 2"
proof -
  have down: "ListRepositories (registry (exampleRunner freshStore downRegistry))
                = Inl (Errorf ''listing catalog'')"
    by (simp add: exampleRunner_def downRegistry_def)
  have up: "ListRepositories (registry (exampleRunner freshStore exampleRegistry))
              = Inr [''a'', ''b'', ''c'']"
    by (simp add: exampleRunner_def exampleRegistry_def)
  have images: "imagesOf (registry (exampleRunner freshStore exampleRegistry)) [''a'', ''b'', ''c'']
                  = [''a:1h'', ''c:latest'', ''c:5m'']"
    by (simp add: imagesOf_def exampleRunner_def exampleRegistry_def)
  have count: "fst (snd (Run exampleClock (exampleRunner freshStore exampleRegistry) [])) = 2"
    by (simp add: flow_eval)
  from Run_isolation [where r = "exampleRunner freshStore downRegistry"
      and e = "Errorf ''listing catalog''" and now = exampleClock and t = "[]"] down
    Run_isolation [where r = "exampleRunner freshStore exampleRegistry"
      and now = exampleClock and t = "[]" and repos = "[''a'', ''b'', ''c'']"] up images count
  show ?thesis by simp
qed

text \<open>
  C7, what the code does. \<^verbatim>\<open>ServeHTTP\<close> answers 401 when the token check fails and 400
  when the payload cannot be decoded; but once the request is authorized and decoded it
  answers 200 whatever the store does: an error of \<^verbatim>\<open>handlePush\<close> is logged and dropped,
  and no path of the handler answers with a server-error status.
\<close>

theorem ServeHTTP_status:
  "(Method req = ''POST'' \<and> Authorization req \<noteq> ''Token '' @ hookToken h \<longrightarrow>
      fst (ServeHTTP now h req t) = StatusUnauthorized) \<and>
   (Method req = ''POST'' \<and> Authorization req = ''Token '' @ hookToken h \<and> Body req = Inl err \<longrightarrow>
      fst (ServeHTTP now h req t) = StatusBadRequest) \<and>
   (Method req = ''POST'' \<and> Authorization req = ''Token '' @ hookToken h
      \<and> Body req = Inr envelope \<longrightarrow>
      fst (ServeHTTP now h req t) = StatusOK)"
  by (simp add: ServeHTTP_def)

text \<open>
  C7 at the failing input: an authorized push of \<^verbatim>\<open>myapp:1h\<close> while the store is down.
  The write is attempted, the store refuses it, and the answer is 200.
\<close>

theorem ServeHTTP_status_witness:
  "ServeHTTP exampleClock (exampleHandler downStore) pushRequest []
     = (200, [TrackImageCall ''myapp:1h'' (exampleClock [] + Hour)]) \<and>
   TrackImage downStore ''myapp:1h'' (exampleClock [] + Hour) = Some (Errorf ''connection refused'') \<and>
   fst (ServeHTTP exampleClock (exampleHandler downStore)
          (pushRequest\<lparr>Authorization := ''Token wrong''\<rparr>) []) = 401 \<and>
   fst (ServeHTTP exampleClock (exampleHandler downStore)
          (pushRequest\<lparr>Body := Inl (Errorf ''invalid character'')\<rparr>) []) = 400"
  using ServeHTTP_status [where req = pushRequest and h = "exampleHandler downStore"
      and now = exampleClock and t = "[]"
      and envelope = "\<lparr>Events = [\<lparr>Action = ''push'',
                                  Target = \<lparr>Repository = ''myapp'', Tag = ''1h''\<rparr>\<rparr>]\<rparr>"]
    ServeHTTP_status [where req = "pushRequest\<lparr>Authorization := ''Token wrong''\<rparr>"
      and h = "exampleHandler downStore" and now = exampleClock and t = "[]"]
    ServeHTTP_status [where req = "pushRequest\<lparr>Body := Inl (Errorf ''invalid character'')\<rparr>"
      and h = "exampleHandler downStore" and now = exampleClock and t = "[]"
      and err = "Errorf ''invalid character''"]
  by (simp add: flow_eval ttl_eval)

text \<open>
  C10, at the resolution of what is stored. For every tag and strictly positive
  \<open>defaultTTL\<close> and \<open>maxTTL\<close>, the effective TTL \<open>ClampTTL (ParseTTL tag) defaultTTL maxTTL\<close>
  is strictly positive. So the one write of \<^verbatim>\<open>handlePush\<close> hands the store an expiry
  strictly later, in nanoseconds, than the clock reading it was computed from, and so does
  every write made while \<^verbatim>\<open>ServeHTTP\<close> handles a request and every write of a
  reconciliation \<^verbatim>\<open>Run\<close>. \<^verbatim>\<open>Client.TrackImage\<close> keeps of that instant its whole
  milliseconds, next to \<^verbatim>\<open>created\<close>, the milliseconds of a reading of its own, and
  \<^verbatim>\<open>Client.GetExpiry\<close> reads the same number back. The stored expiry is therefore never
  before the millisecond of the reading it was computed from; it is strictly after the
  stored \<^verbatim>\<open>created\<close> when the expiry is at least a millisecond after the client's reading,
  and not when the client's reading has reached the expiry. With both limits of at least a
  millisecond and a tag that is unparseable or does not overflow 64 bits, the effective TTL
  is at least a millisecond.
\<close>

theorem tracking_expiry_stored:
  "(0 < dflt \<and> 0 < mx \<longrightarrow> 0 < ClampTTL (ParseTTL tag) dflt mx) \<and>
   (0 < Handler.defaultTTL h \<and> 0 < Handler.maxTTL h \<longrightarrow>
      (\<exists>x. snd (handlePush now h repo tag t) = t @ [TrackImageCall (repo @ '':'' @ tag) x]
            \<and> now t < x \<and> UnixMilli (now t) \<le> UnixMilli x
            \<and> hashes (snd (Client_TrackImage Executed created (repo @ '':'' @ tag) x rdb))
                  (repo @ '':'' @ tag) ''expires'' = Some (FormatInt (UnixMilli x))) \<and>
      writesAhead now t (newCalls t (snd (ServeHTTP now h req t))) \<and>
      writesStored now t (newCalls t (snd (ServeHTTP now h req t)))) \<and>
   (0 < Runner.defaultTTL r \<and> 0 < Runner.maxTTL r \<longrightarrow>
      writesAhead now t (newCalls t (snd (snd (Run now r t)))) \<and>
      writesStored now t (newCalls t (snd (snd (Run now r t))))) \<and>
   fst (Client_TrackImage Executed created ref e rdb) = None \<and>
   ref \<in> images (snd (Client_TrackImage Executed created ref e rdb)) \<and>
   hashes (snd (Client_TrackImage Executed created ref e rdb)) ref ''expires''
     = Some (FormatInt (UnixMilli e)) \<and>
   hashes (snd (Client_TrackImage Executed created ref e rdb)) ref ''created''
     = Some (FormatInt (UnixMilli created)) \<and>
   (- (2 ^ 63) \<le> UnixMilli e \<and> UnixMilli e < 2 ^ 63 \<longrightarrow>
      Client_GetExpiry None (snd (Client_TrackImage Executed created ref e rdb)) ref
        = Inr (UnixMilli e)) \<and>
   (created + Millisecond \<le> e \<longrightarrow> UnixMilli created < UnixMilli e) \<and>
   (e \<le> created \<longrightarrow> \<not> UnixMilli created < UnixMilli e) \<and>
   (Millisecond \<le> dflt \<and> Millisecond \<le> mx \<and>
      (FindStringSubmatch tag = None
       \<or> (FindStringSubmatch tag = Some matches \<and> exactTTL matches < 2 ^ 63)) \<longrightarrow>
      Millisecond \<le> ClampTTL (ParseTTL tag) dflt mx)"
proof (intro conjI impI)
  assume "0 < dflt \<and> 0 < mx"
  then show "0 < ClampTTL (ParseTTL tag) dflt mx"
    by (simp add: ClampTTL_pos)
next
  assume a: "0 < Handler.defaultTTL h \<and> 0 < Handler.maxTTL h"
  then have p: "0 < ClampTTL (ParseTTL tag) (Handler.defaultTTL h) (Handler.maxTTL h)"
    by (simp add: ClampTTL_pos)
  have "UnixMilli (now t)
      \<le> UnixMilli (now t + ClampTTL (ParseTTL tag) (Handler.defaultTTL h) (Handler.maxTTL h))"
    using p by (intro UnixMilli_mono) simp
  with p show "\<exists>x. snd (handlePush now h repo tag t) = t @ [TrackImageCall (repo @ '':'' @ tag) x]
            \<and> now t < x \<and> UnixMilli (now t) \<le> UnixMilli x
            \<and> hashes (snd (Client_TrackImage Executed created (repo @ '':'' @ tag) x rdb))
                  (repo @ '':'' @ tag) ''expires'' = Some (FormatInt (UnixMilli x))"
    by (simp add: handlePush_def Let_def Client_TrackImage_stored)
  from a show ah: "writesAhead now t (newCalls t (snd (ServeHTTP now h req t)))"
    by (simp add: ServeHTTP_ahead)
  then show "writesStored now t (newCalls t (snd (ServeHTTP now h req t)))"
    by (rule writesAhead_stored)
next
  assume "0 < Runner.defaultTTL r \<and> 0 < Runner.maxTTL r"
  then show ah: "writesAhead now t (newCalls t (snd (snd (Run now r t))))"
    by (simp add: Run_ahead)
  then show "writesStored now t (newCalls t (snd (snd (Run now r t))))"
    by (rule writesAhead_stored)
next
  show "fst (Client_TrackImage Executed created ref e rdb) = None"
    and "ref \<in> images (snd (Client_TrackImage Executed created ref e rdb))"
    and "hashes (snd (Client_TrackImage Executed created ref e rdb)) ref ''expires''
           = Some (FormatInt (UnixMilli e))"
    and "hashes (snd (Client_TrackImage Executed created ref e rdb)) ref ''created''
           = Some (FormatInt (UnixMilli created))"
    by (rule Client_TrackImage_stored)+
next
  assume "- (2 ^ 63) \<le> UnixMilli e \<and> UnixMilli e < 2 ^ 63"
  then show "Client_GetExpiry None (snd (Client_TrackImage Executed created ref e rdb)) ref
        = Inr (UnixMilli e)"
    by (simp add: Client_GetExpiry_stored)
next
  assume "created + Millisecond \<le> e"
  then show "UnixMilli created < UnixMilli e" by (rule UnixMilli_strict)
next
  assume "e \<le> created"
  then have "UnixMilli e \<le> UnixMilli created" by (rule UnixMilli_mono)
  then show "\<not> UnixMilli created < UnixMilli e" by simp
next
  assume "Millisecond \<le> dflt \<and> Millisecond \<le> mx \<and>
      (FindStringSubmatch tag = None
       \<or> (FindStringSubmatch tag = Some matches \<and> exactTTL matches < 2 ^ 63))"
  then show "Millisecond \<le> ClampTTL (ParseTTL tag) dflt mx"
    using ClampTTL_millisecond [of dflt mx tag matches] by blast
qed

theorem tracking_expiry_stored_witness:
  "0 < ClampTTL (ParseTTL ''0s'') Hour (24 * Hour) \<and>
   (\<exists>x. snd (handlePush exampleClock (exampleHandler readyStore) ''myapp'' ''0s'' [])
           = [] @ [TrackImageCall (''myapp'' @ '':'' @ ''0s'') x]
         \<and> exampleClock [] < x \<and> UnixMilli (exampleClock []) \<le> UnixMilli x
         \<and> hashes (snd (Client_TrackImage Executed (exampleClock []) (''myapp'' @ '':'' @ ''0s'')
                          x emptyRedis))
               (''myapp'' @ '':'' @ ''0s'') ''expires'' = Some (FormatInt (UnixMilli x))) \<and>
   writesAhead exampleClock []
     (newCalls [] (snd (ServeHTTP exampleClock (exampleHandler readyStore) pushRequest []))) \<and>
   writesStored exampleClock []
     (newCalls [] (snd (ServeHTTP exampleClock (exampleHandler readyStore) pushRequest []))) \<and>
   writesAhead exampleClock []
     (newCalls [] (snd (snd (Run exampleClock (exampleRunner freshStore exampleRegistry) [])))) \<and>
   writesStored exampleClock []
     (newCalls [] (snd (snd (Run exampleClock (exampleRunner freshStore exampleRegistry) [])))) \<and>
   fst (Client_TrackImage Executed (exampleClock []) ''myapp:0s'' (exampleClock [] + Hour)
          emptyRedis) = None \<and>
   Client_GetExpiry None
       (snd (Client_TrackImage Executed (exampleClock []) ''myapp:0s'' (exampleClock [] + Hour)
               emptyRedis)) ''myapp:0s''
     = Inr (UnixMilli (exampleClock [] + Hour)) \<and>
   UnixMilli (exampleClock []) < UnixMilli (exampleClock [] + Hour) \<and>
   \<not> UnixMilli (exampleClock [] + 1) < UnixMilli (exampleClock [] + 1) \<and>
   Millisecond \<le> ClampTTL (ParseTTL ''0s'') Hour (24 * Hour)"
proof -
  have p: "(0::int) < Hour \<and> (0::int) < 24 * Hour"
    by (simp add: Hour_def Minute_def Second_def)
  have h: "0 < Handler.defaultTTL (exampleHandler readyStore)
      \<and> 0 < Handler.maxTTL (exampleHandler readyStore)"
    using p by (simp add: exampleHandler_def)
  have r: "0 < Runner.defaultTTL (exampleRunner freshStore exampleRegistry)
      \<and> 0 < Runner.maxTTL (exampleRunner freshStore exampleRegistry)"
    using p by (simp add: exampleRunner_def)
  have b: "- (2 ^ 63) \<le> UnixMilli (exampleClock [] + Hour)
      \<and> UnixMilli (exampleClock [] + Hour) < 2 ^ 63"
    by (simp add: UnixMilli_def exampleClock_def Hour_def Minute_def Second_def)
  have m: "exampleClock [] + Millisecond \<le> exampleClock [] + Hour"
    by (simp add: Millisecond_def Hour_def Minute_def Second_def)
  have n: "exampleClock [] + 1 \<le> exampleClock [] + 1"
    by simp
  have f: "FindStringSubmatch ''0s'' = Some [''0s'', [], [], [], [], ''0'']"
    by (simp add: ttl_eval)
  have x: "exactTTL [''0s'', [], [], [], [], ''0''] < 2 ^ 63"
    by (simp add: exactTTL_def digitsValue_def)
  have g: "Millisecond \<le> Hour \<and> Millisecond \<le> 24 * Hour \<and>
      (FindStringSubmatch ''0s'' = None \<or>
       (FindStringSubmatch ''0s'' = Some [''0s'', [], [], [], [], ''0''] \<and>
        exactTTL [''0s'', [], [], [], [], ''0''] < 2 ^ 63))"
    using f x by (simp add: Millisecond_def Hour_def Minute_def Second_def)
  note a = tracking_expiry_stored [where dflt = Hour and mx = "24 * Hour" and tag = "''0s''"
      and h = "exampleHandler readyStore" and now = exampleClock and repo = "''myapp''"
      and t = "[]" and req = pushRequest and r = "exampleRunner freshStore exampleRegistry"
      and created = "exampleClock []" and e = "exampleClock [] + Hour"
      and ref = "''myapp:0s''" and rdb = emptyRedis
      and matches = "[''0s'', [], [], [], [], ''0'']"]
  note c = tracking_expiry_stored [where created = "exampleClock [] + 1"
      and e = "exampleClock [] + 1"]
  from a p h r b m g have 1:
    "0 < ClampTTL (ParseTTL ''0s'') Hour (24 * Hour)"
    "\<exists>x. snd (handlePush exampleClock (exampleHandler readyStore) ''myapp'' ''0s'' [])
           = [] @ [TrackImageCall (''myapp'' @ '':'' @ ''0s'') x]
         \<and> exampleClock [] < x \<and> UnixMilli (exampleClock []) \<le> UnixMilli x
         \<and> hashes (snd (Client_TrackImage Executed (exampleClock []) (''myapp'' @ '':'' @ ''0s'')
                          x emptyRedis))
               (''myapp'' @ '':'' @ ''0s'') ''expires'' = Some (FormatInt (UnixMilli x))"
    "writesAhead exampleClock []
     (newCalls [] (snd (ServeHTTP exampleClock (exampleHandler readyStore) pushRequest [])))"
    "writesStored exampleClock []
     (newCalls [] (snd (ServeHTTP exampleClock (exampleHandler readyStore) pushRequest [])))"
    "writesAhead exampleClock []
     (newCalls [] (snd (snd (Run exampleClock (exampleRunner freshStore exampleRegistry) []))))"
    "writesStored exampleClock []
     (newCalls [] (snd (snd (Run exampleClock (exampleRunner freshStore exampleRegistry) []))))"
    "fst (Client_TrackImage Executed (exampleClock []) ''myapp:0s'' (exampleClock [] + Hour)
          emptyRedis) = None"
    "Client_GetExpiry None
       (snd (Client_TrackImage Executed (exampleClock []) ''myapp:0s'' (exampleClock [] + Hour)
               emptyRedis)) ''myapp:0s''
     = Inr (UnixMilli (exampleClock [] + Hour))"
    "UnixMilli (exampleClock []) < UnixMilli (exampleClock [] + Hour)"
    "Millisecond \<le> ClampTTL (ParseTTL ''0s'') Hour (24 * Hour)"
    by blast+
  from c n have 2: "\<not> UnixMilli (exampleClock [] + 1) < UnixMilli (exampleClock [] + 1)"
    by blast
  from 1 2 show ?thesis by blast
qed

text \<open>
  C10 as stated fails at the resolution of the store. \<^verbatim>\<open>Validate\<close> accepts limits of one
  nanosecond; the handler then tracks \<^verbatim>\<open>myapp:latest\<close> with an expiry one nanosecond after
  its clock reading, and the client, reading the clock at that nanosecond, stores the same
  millisecond for \<^verbatim>\<open>expires\<close> and for \<^verbatim>\<open>created\<close>, which is also the millisecond of the
  handler's reading: the stored expiry is not strictly later than the moment of tracking.
\<close>

theorem tracking_expiry_counterexample:
  "Validate tinyConfig = None \<and>
   0 < Handler.defaultTTL tinyHandler \<and> 0 < Handler.maxTTL tinyHandler \<and>
   exampleClock [] = 1700000000000000000 \<and>
   handlePush exampleClock tinyHandler ''myapp'' ''latest'' []
     = (None, [TrackImageCall ''myapp:latest'' 1700000000000000001]) \<and>
   exampleClock [TrackImageCall ''myapp:latest'' 1700000000000000001] = 1700000000000000001 \<and>
   hashes (snd (Client_TrackImage Executed 1700000000000000001 ''myapp:latest''
                  1700000000000000001 emptyRedis)) ''myapp:latest'' ''expires''
     = Some ''1700000000000'' \<and>
   hashes (snd (Client_TrackImage Executed 1700000000000000001 ''myapp:latest''
                  1700000000000000001 emptyRedis)) ''myapp:latest'' ''created''
     = Some ''1700000000000'' \<and>
   Client_GetExpiry None
       (snd (Client_TrackImage Executed 1700000000000000001 ''myapp:latest''
               1700000000000000001 emptyRedis)) ''myapp:latest''
     = Inr 1700000000000 \<and>
   UnixMilli (exampleClock []) = 1700000000000 \<and>
   \<not> (1700000000000::int) < 1700000000000"
proof -
  have f: "formatUint 1700000000000 = ''1700000000000''"
    by (simp add: formatUint.simps digitChar_def)
  have p: "ParseTTL ''latest'' = - 1"
    by (simp add: ttl_eval)
  have v: "Validate tinyConfig = None"
    by (simp add: Validate_def tinyConfig_def exampleConfig_def)
  have l: "0 < Handler.defaultTTL tinyHandler \<and> 0 < Handler.maxTTL tinyHandler"
    by (simp add: tinyHandler_def tinyConfig_def exampleConfig_def)
  have c: "exampleClock [] = 1700000000000000000"
    "exampleClock [TrackImageCall ''myapp:latest'' 1700000000000000001] = 1700000000000000001"
    by (simp_all add: exampleClock_def)
  have h: "handlePush exampleClock tinyHandler ''myapp'' ''latest'' []
     = (None, [TrackImageCall ''myapp:latest'' 1700000000000000001])"
    by (simp add: handlePush_def Let_def p c ClampTTL_def tinyHandler_def tinyConfig_def
        exampleConfig_def readyStore_def)
  have u: "UnixMilli 1700000000000000001 = 1700000000000"
    "UnixMilli 1700000000000000000 = 1700000000000"
    by (simp_all add: UnixMilli_def)
  have fi: "FormatInt 1700000000000 = ''1700000000000''"
    by (simp add: FormatInt_def f)
  have st: "hashes (snd (Client_TrackImage Executed 1700000000000000001 ''myapp:latest''
                  1700000000000000001 emptyRedis)) ''myapp:latest'' ''expires''
     = Some ''1700000000000''"
    "hashes (snd (Client_TrackImage Executed 1700000000000000001 ''myapp:latest''
                  1700000000000000001 emptyRedis)) ''myapp:latest'' ''created''
     = Some ''1700000000000''"
    by (simp_all add: Client_TrackImage_stored u fi)
  have g: "Client_GetExpiry None
       (snd (Client_TrackImage Executed 1700000000000000001 ''myapp:latest''
               1700000000000000001 emptyRedis)) ''myapp:latest''
     = Inr 1700000000000"
    using Client_GetExpiry_stored [of 1700000000000000001 1700000000000000001 "''myapp:latest''" emptyRedis]
    by (simp add: u)
  from v l c h st g u show ?thesis by simp
qed

section \<open>Facts about the reap cycle\<close>

lemma deleteImage_store:
  "fst (snd (deleteImage env x s)) = s \<or> fst (snd (deleteImage env x s)) = removeArtifact x s"
  by (simp add: deleteImage_def split: option.splits prod.splits answer.splits)

lemma removeArtifact_other:
  "x \<noteq> ref \<Longrightarrow> records (removeArtifact x s) ref = records s ref"
  "x \<noteq> ref \<Longrightarrow> ref \<in> set (tracked (removeArtifact x s)) \<longleftrightarrow> ref \<in> set (tracked s)"
  "lockHeld (removeArtifact x s) = lockHeld s"
  by (simp_all add: removeArtifact_def)


lemma deleteImage_other:
  assumes "x \<noteq> ref"
  shows "records (fst (snd (deleteImage env x s))) ref = records s ref"
    and "ref \<in> set (tracked (fst (snd (deleteImage env x s)))) \<longleftrightarrow> ref \<in> set (tracked s)"
  using deleteImage_store [of env x s] assms by (auto simp: removeArtifact_other)

lemma expired_cong:
  "records s' ref = records s ref \<Longrightarrow> expired s' now ref = expired s now ref"
  by (simp add: expired_def getExpiry_def)

lemma evaluate_step_skip:
  "\<not> expired s now x \<Longrightarrow> evaluate env now (x # refs) s = evaluate env now refs s"
  by (simp add: expired_def split: option.splits)

lemma evaluate_step_expired:
  assumes "expired s now x"
  shows "\<exists>outcome. evaluate env now (x # refs) s =
     (fst (evaluate env now refs (fst (snd (deleteImage env x s)))),
      Attempt x # map (Sent x) (snd (snd (deleteImage env x s))) @ outcome
        # snd (evaluate env now refs (fst (snd (deleteImage env x s)))))
     \<and> eventRef outcome = x
     \<and> outcome = (case fst (deleteImage env x s) of None \<Rightarrow> Reclaimed x (getSize s x) | Some e \<Rightarrow> Gave_up x e)"
  using assms
  by (auto simp: expired_def Let_def split: option.splits prod.splits)

lemma evaluate_Nil: "evaluate env now [] s = (s, [])"
  by simp

declare evaluate.simps [simp del]



lemma evaluate_attempts:
  assumes "ref \<in> set refs" and "expired s now ref"
  shows "Attempt ref \<in> set (snd (evaluate env now refs s))"
  using assms
proof (induction refs arbitrary: s)
  case Nil
  then show ?case by simp
next
  case (Cons x refs)
  show ?case
  proof (cases "expired s now x")
    case False
    with Cons.prems have in_refs: "ref \<in> set refs" by auto
    have "evaluate env now (x # refs) s = evaluate env now refs s"
      using False by (rule evaluate_step_skip)
    with Cons.IH [OF in_refs Cons.prems(2)] show ?thesis by simp
  next
    case True
    define s1 where "s1 = fst (snd (deleteImage env x s))"
    define sent where "sent = snd (snd (deleteImage env x s))"
    from evaluate_step_expired [OF True, of env refs] obtain outcome where
      st: "evaluate env now (x # refs) s =
        (fst (evaluate env now refs s1),
         Attempt x # map (Sent x) sent @ outcome # snd (evaluate env now refs s1))"
      unfolding s1_def sent_def by blast
    show ?thesis
    proof (cases "x = ref")
      case True
      show ?thesis unfolding st using True by simp
    next
      case False
      with Cons.prems have in_refs: "ref \<in> set refs" by auto
      have r: "records s1 ref = records s ref"
        unfolding s1_def using False by (rule deleteImage_other(1))
      have "expired s1 now ref"
        using Cons.prems(2) expired_cong [OF r, of now] by simp
      from Cons.IH [OF in_refs this] show ?thesis unfolding st by simp
    qed
  qed
qed

lemma evaluate_lock: "lockHeld (fst (evaluate env now refs s)) = lockHeld s"
proof (induction refs arbitrary: s)
  case Nil
  show ?case by (simp add: evaluate_Nil)
next
  case (Cons x refs)
  show ?case
  proof (cases "expired s now x")
    case False
    then show ?thesis using Cons by (simp add: evaluate_step_skip)
  next
    case True
    from evaluate_step_expired [OF True, of env refs] obtain outcome where
      st: "evaluate env now (x # refs) s =
        (fst (evaluate env now refs (fst (snd (deleteImage env x s)))),
         Attempt x # map (Sent x) (snd (snd (deleteImage env x s))) @ outcome
           # snd (evaluate env now refs (fst (snd (deleteImage env x s)))))"
      by blast
    have "lockHeld (fst (snd (deleteImage env x s))) = lockHeld s"
      using deleteImage_store [of env x s] by (auto simp: removeArtifact_other(3))
    with Cons show ?thesis unfolding st by simp
  qed
qed

















lemma unlocked: "\<not> lockHeld s \<Longrightarrow> s\<lparr>lockHeld := False\<rparr> = s"
  by simp


section \<open>The claims about the reap cycle\<close>






section \<open>The repository's tests, replayed on the model\<close>

text \<open>\<^verbatim>\<open>TestParseTTL\<close>, row by row.\<close>

lemma TestParseTTL:
  "ParseTTL ''5m'' = 5 * Minute" "ParseTTL ''30m'' = 30 * Minute"
  "ParseTTL ''1h'' = Hour" "ParseTTL ''6h'' = 6 * Hour" "ParseTTL ''24h'' = 24 * Hour"
  "ParseTTL ''1d'' = 24 * Hour" "ParseTTL ''1w'' = 7 * 24 * Hour"
  "ParseTTL ''1h30m'' = Hour + 30 * Minute" "ParseTTL ''2d12h'' = 2 * 24 * Hour + 12 * Hour"
  "ParseTTL ''30s'' = 30 * Second" "ParseTTL ''1d12h30m'' = 24 * Hour + 12 * Hour + 30 * Minute"
  "ParseTTL ''latest'' = - 1" "ParseTTL ''v1.0.0'' = - 1" "ParseTTL [] = - 1"
  "ParseTTL ''abc'' = - 1" "ParseTTL ''sha-abc123'' = - 1"
  by (simp_all add: ttl_eval)

text \<open>\<^verbatim>\<open>TestClampTTL\<close>, with the default of one hour and the maximum of 24 hours.\<close>

lemma TestClampTTL:
  "ClampTTL (- 1) Hour (24 * Hour) = Hour" "ClampTTL 0 Hour (24 * Hour) = Hour"
  "ClampTTL (6 * Hour) Hour (24 * Hour) = 6 * Hour"
  "ClampTTL (48 * Hour) Hour (24 * Hour) = 24 * Hour"
  "ClampTTL (24 * Hour) Hour (24 * Hour) = 24 * Hour" "ClampTTL Hour Hour (24 * Hour) = Hour"
  by (simp_all add: ClampTTL_def Hour_def Minute_def Second_def)

text \<open>
  \<^verbatim>\<open>TestHandler_Auth\<close> and \<^verbatim>\<open>TestHandler_EventParsing\<close>: the handler of the tests has the
  limits 0 and 0 and no store, which the requests of the tests never reach.
\<close>

lemma TestHandler:
  fixes s :: Store and now :: Clock
  defines "h \<equiv> \<lparr>Handler.redis = s, hookToken = ''tok'',
                   Handler.defaultTTL = 0, Handler.maxTTL = 0\<rparr>"
  shows "ServeHTTP now h \<lparr>Method = ''POST'', Authorization = [], Body = Inr \<lparr>Events = []\<rparr>\<rparr> []
           = (401, [])"
    and "ServeHTTP now h \<lparr>Method = ''POST'', Authorization = ''Token wrong-token'',
                           Body = Inr \<lparr>Events = []\<rparr>\<rparr> [] = (401, [])"
    and "ServeHTTP now h \<lparr>Method = ''GET'', Authorization = [], Body = Inr \<lparr>Events = []\<rparr>\<rparr> []
           = (405, [])"
    and "ServeHTTP now h \<lparr>Method = ''POST'', Authorization = ''Token tok'',
                           Body = Inl (Errorf ''invalid character'')\<rparr> [] = (400, [])"
    and "ServeHTTP now h \<lparr>Method = ''POST'', Authorization = ''Token tok'',
                           Body = Inr \<lparr>Events = []\<rparr>\<rparr> [] = (200, [])"
    and "ServeHTTP now h \<lparr>Method = ''POST'', Authorization = ''Token tok'',
           Body = Inr \<lparr>Events = [\<lparr>Action = ''pull'',
                                   Target = \<lparr>Repository = ''foo'', Tag = ''1h''\<rparr>\<rparr>]\<rparr>\<rparr> []
           = (200, [])"
    and "ServeHTTP now h \<lparr>Method = ''POST'', Authorization = ''Token tok'',
           Body = Inr \<lparr>Events = [\<lparr>Action = ''push'',
                                   Target = \<lparr>Repository = [], Tag = ''1h''\<rparr>\<rparr>,
                                 \<lparr>Action = ''push'',
                                   Target = \<lparr>Repository = ''foo'', Tag = []\<rparr>\<rparr>]\<rparr>\<rparr> []
           = (200, [])"
  by (simp_all add: h_def ServeHTTP_def StatusOK_def StatusBadRequest_def StatusUnauthorized_def
      StatusMethodNotAllowed_def)

text \<open>\<^verbatim>\<open>TestRunIfNeeded_AlreadyInitialized\<close>: no error and no image tracked.\<close>

lemma TestRunIfNeeded_AlreadyInitialized:
  "RunIfNeeded now \<lparr>Runner.redis = readyStore, registry = reg,
                    Runner.defaultTTL = Hour, Runner.maxTTL = 24 * Hour\<rparr> []
     = (None, [IsInitializedCall])"
  by (simp add: RunIfNeeded_def readyStore_def)

text \<open>
  The tests of the reaper, on the cycle as it is modelled from the specification: a registry
  that answers 404 to everything, one that resolves the digest and accepts the deletion,
  a reference without a colon, and the two cycles over one image (the times of the tests,
  one minute ago and in one hour, are taken relative to the clock reading 100000).
\<close>

lemma TestDeleteImage:
  fixes env :: ReapEnv
  defines "s \<equiv> \<lparr>tracked = [''myimage:1h''],
                   records = [''myimage:1h'' \<mapsto> \<lparr>createdAt = 0, expiresAt = 0, sizeBytes = 0\<rparr>],
                   lockHeld = False\<rparr>"
    and "accepting \<equiv> \<lparr>listFailure = None,
                       resolveAddress = (\<lambda>repo tag. Answered ''sha256:abc123''),
                       requestDeletion = (\<lambda>repo address. Answered ())\<rparr>"
  shows "fst (deleteImage goneEnv ''myimage:1h'' s) = None"
    and "records (fst (snd (deleteImage goneEnv ''myimage:1h'' s))) ''myimage:1h'' = None"
    and "deleteImage accepting ''myimage:1h'' s
           = (None, \<lparr>tracked = [], records = Map.empty, lockHeld = False\<rparr>,
              [Resolve ''myimage'' ''1h'', Delete ''myimage'' ''sha256:abc123''])"
    and "fst (deleteImage env ''no-colon-here'' s) \<noteq> None"
  by (simp_all add: s_def accepting_def goneEnv_def deleteImage_def splitRef_def
      removeArtifact_def)

lemma TestReapOnce:
  fixes env :: ReapEnv
  defines "accepting \<equiv> \<lparr>listFailure = None,
                       resolveAddress = (\<lambda>repo tag. Answered ''sha256:abc123''),
                       requestDeletion = (\<lambda>repo address. Answered ())\<rparr>"
  shows "ReapOnce accepting 100000
           \<lparr>tracked = [''myapp:5m''],
            records = [''myapp:5m'' \<mapsto> \<lparr>createdAt = 0, expiresAt = 40000, sizeBytes = 0\<rparr>],
            lockHeld = False\<rparr>
         = (None, \<lparr>tracked = [], records = Map.empty, lockHeld = False\<rparr>,
            [Attempt ''myapp:5m'', Sent ''myapp:5m'' (Resolve ''myapp'' ''5m''),
             Sent ''myapp:5m'' (Delete ''myapp'' ''sha256:abc123''), Reclaimed ''myapp:5m'' 0])"
    and "listFailure env = None \<Longrightarrow>
         ReapOnce env 100000
           \<lparr>tracked = [''myapp:1h''],
            records = [''myapp:1h'' \<mapsto> \<lparr>createdAt = 0, expiresAt = 3700000, sizeBytes = 0\<rparr>],
            lockHeld = False\<rparr>
         = (None,
            \<lparr>tracked = [''myapp:1h''],
             records = [''myapp:1h'' \<mapsto> \<lparr>createdAt = 0, expiresAt = 3700000, sizeBytes = 0\<rparr>],
             lockHeld = False\<rparr>, [])"
  by (simp_all add: accepting_def ReapOnce_def acquireLock_def releaseLock_def listTracked_def
      deleteImage_def splitRef_def removeArtifact_def getExpiry_def getSize_def
      evaluate.simps)

end
